theory Spec2Isabelle
  imports Main "HOL-Library.Word"
begin

unbundle bit_operations_syntax

section \<open>Machine types\<close>

type_synonym u8 = "8 word"
type_synonym u64 = "64 word"

text \<open>A \<open>PublicKey\<close> (TypeScript) or \<open>Pubkey\<close> (Rust) is 32 bytes.\<close>

type_synonym pubkey = "256 word"

section \<open>Primitives the program is linked against\<close>

text \<open>
  The repository calls into \<open>@solana/web3.js\<close>, the Anchor framework and the System
  Program. Their cryptographic and ledger primitives are not part of the sources, so the
  model takes them as a parameter \<open>env\<close>:
  \<^item> \<open>sha256\<close>: the hash used by program address derivation;
  \<open>is_on_curve\<close>: membership of a 32-byte value in the ed25519 group;
  \<^item> \<open>minimum_balance\<close>: \<open>Rent::minimum_balance(space)\<close>, what the payer of a new
  account has to put into it;
  \<^item> \<open>overflow_checks\<close>: whether the crate was built with \<open>overflow-checks = true\<close>
  (the build profile is not among the sources). With it Rust's \<open>+=\<close> panics on
  overflow, without it the addition wraps.
\<close>

record env =
  sha256 :: "u8 list \<Rightarrow> pubkey"
  is_on_curve :: "pubkey \<Rightarrow> bool"
  minimum_balance :: "nat \<Rightarrow> u64"
  overflow_checks :: bool

section \<open>Address derivation (utils/anchor.ts)\<close>

text \<open>\<open>new PublicKey("7MtYccqQ745U3ohVr6YVibhpvZCMHUer11BR69zYjrZw")\<close>, base58 decoded.\<close>

definition programID :: pubkey where
  "programID = 42743599416505589883190999466353706685026882447749221727306376544633425546746"

text \<open>\<open>publicKey.toBuffer()\<close>: the 32 bytes of the key, most significant first.\<close>

definition toBuffer :: "pubkey \<Rightarrow> u8 list" where
  "toBuffer k = map (\<lambda>i. ucast (drop_bit (8 * (31 - i)) k)) [0..<32]"

text \<open>\<open>Buffer.from("vault")\<close> and \<open>Buffer.from("counter")\<close>, as ASCII bytes.\<close>

definition vault_tag :: "u8 list" where
  "vault_tag = [118, 97, 117, 108, 116]"

definition counter_tag :: "u8 list" where
  "counter_tag = [99, 111, 117, 110, 116, 101, 114]"

text \<open>The bytes of \<open>"ProgramDerivedAddress"\<close>, appended to every hashed seed string.\<close>

definition PDA_MARKER :: "u8 list" where
  "PDA_MARKER = [80, 114, 111, 103, 114, 97, 109, 68, 101, 114, 105, 118, 101, 100,
                 65, 100, 100, 114, 101, 115, 115]"

text \<open>
  Modelled from the spec: \<open>PublicKey.createProgramAddressSync\<close> and
  \<open>PublicKey.findProgramAddressSync\<close> of \<open>@solana/web3.js\<close> (and their Rust twins
  \<open>Pubkey::create_program_address\<close>, \<open>Pubkey::find_program_address\<close>) are library code
  outside the repository. They follow section 4.1 of the specification: hash the seeds,
  the candidate bump byte, the program identifier and a fixed marker; the address is
  valid when the digest is off the curve; candidates are tried from 255 downwards and
  the first valid one is returned with its bump. The library stops after bump 1;
  \<open>None\<close> stands for its exception "Unable to find a viable program address".
\<close>

definition create_program_address :: "env \<Rightarrow> u8 list list \<Rightarrow> pubkey \<Rightarrow> pubkey option" where
  "create_program_address e seeds program_id =
     (let h = sha256 e (concat seeds @ toBuffer program_id @ PDA_MARKER)
      in if is_on_curve e h then None else Some h)"

text \<open>
  Modelled from the spec: the loop of \<open>findProgramAddressSync\<close> (section 4.1,
  "starting at 255 and decrementing"); \<open>n\<close> is the candidate tried next.
\<close>

fun find_bump :: "env \<Rightarrow> u8 list list \<Rightarrow> pubkey \<Rightarrow> nat \<Rightarrow> (pubkey \<times> u8) option" where
  "find_bump e seeds program_id 0 = None"
| "find_bump e seeds program_id (Suc n) =
     (case create_program_address e (seeds @ [[of_nat (Suc n)]]) program_id of
        Some address \<Rightarrow> Some (address, of_nat (Suc n))
      | None \<Rightarrow> find_bump e seeds program_id n)"

text \<open>
  Modelled from the spec: \<open>findProgramAddressSync\<close> itself, the search started at 255.
\<close>

definition find_program_address :: "env \<Rightarrow> u8 list list \<Rightarrow> pubkey \<Rightarrow> (pubkey \<times> u8) option" where
  "find_program_address e seeds program_id = find_bump e seeds program_id 255"

text \<open>
  \<open>getVaultPDA\<close> and \<open>getCounterPDA\<close> keep the address and drop the bump
  (\<open>const [vaultPDA] = ...\<close>).
\<close>

definition getVaultPDA :: "env \<Rightarrow> pubkey \<Rightarrow> pubkey option" where
  "getVaultPDA e publicKey =
     map_option fst (find_program_address e [vault_tag, toBuffer publicKey] programID)"

definition getCounterPDA :: "env \<Rightarrow> pubkey \<Rightarrow> pubkey option" where
  "getCounterPDA e publicKey =
     map_option fst (find_program_address e [counter_tag, toBuffer publicKey] programID)"

section \<open>The on-chain program (README.md, "Smart Contract")\<close>

subsection \<open>Accounts and ledger\<close>

text \<open>\<open>#[account] pub struct UserInteractions\<close>.\<close>

record UserInteractions =
  total_deposits :: u64
  total_withdrawals :: u64

text \<open>
  What the program can observe of the ledger: the lamports held at every address, and
  the data of the \<open>UserInteractions\<close> accounts the program has initialised (an address
  without an entry holds no account of the program).
\<close>

record ledger =
  lamports :: "pubkey \<Rightarrow> u64"
  user_interactions :: "pubkey \<Rightarrow> UserInteractions option"

text \<open>
  The accounts a caller passes with an instruction, in the order of the IDL
  (\<open>userVaultAccount\<close>, \<open>userInteractionsCounter\<close>, \<open>signer\<close>, \<open>systemProgram\<close>).
  \<open>is_signer\<close> says whether the runtime found the signature of \<open>signer\<close> on the
  transaction. The accounts are passed writable, as the IDL declares them.
\<close>

record AccountMetas =
  user_vault_account :: pubkey
  user_interactions_counter :: pubkey
  signer :: pubkey
  is_signer :: bool
  system_program :: pubkey

text \<open>
  The errors a call can end with. The first four are the error classes of the
  specification; in the deployed program they are raised by Anchor and the System Program:
  \<^item> \<open>InsufficientFunds\<close>: the System Program's "insufficient lamports" on a transfer;
  \<^item> \<open>CounterNotFound\<close>: Anchor's \<open>AccountNotInitialized\<close> when an
    \<open>Account<UserInteractions>\<close> is loaded from an address holding none;
  \<^item> \<open>AddressMismatch\<close>: Anchor's \<open>ConstraintSeeds\<close>;
  \<^item> \<open>UnauthorizedSigner\<close>: Anchor's \<open>AccountNotSigner\<close>.
  The others: \<open>InvalidProgramId\<close> (the account passed as \<open>system_program\<close> is not the
  System Program), \<open>ArithmeticOverflow\<close> (a credit would exceed 64 bits),
  \<open>MissingRequiredSignature\<close> (a transfer out of an account that neither signed nor is
  derived from the signer seeds), \<open>ProgramPanicked\<close> (a Rust panic: \<open>unwrap\<close> of
  \<open>None\<close>, a checked \<open>+=\<close> that overflows, a bump search that finds nothing).
\<close>

datatype error =
    InsufficientFunds
  | CounterNotFound
  | AddressMismatch
  | UnauthorizedSigner
  | InvalidProgramId
  | ArithmeticOverflow
  | MissingRequiredSignature
  | ProgramPanicked

text \<open>The System Program's address is 32 zero bytes.\<close>

definition SYSTEM_PROGRAM_ID :: pubkey where
  "SYSTEM_PROGRAM_ID = 0"

subsection \<open>System Program transfer\<close>

text \<open>
  Modelled from the spec: \<open>system_program::transfer\<close> is the System Program's code,
  outside the repository. Sections 4.2 and 4.3: move the amount from one balance to the
  other, failing with \<open>InsufficientFunds\<close> when the source holds less than the amount.
  The System Program debits the source, then credits the destination with a checked
  addition.
\<close>

definition transfer :: "ledger \<Rightarrow> pubkey \<Rightarrow> pubkey \<Rightarrow> u64 \<Rightarrow> error + ledger" where
  "transfer s from_key to_key amount =
     (if lamports s from_key < amount then Inl InsufficientFunds
      else
        let debited = (lamports s)(from_key := lamports s from_key - amount)
        in if 2 ^ 64 \<le> unat (debited to_key) + unat amount then Inl ArithmeticOverflow
           else Inr (s\<lparr>lamports := debited(to_key := debited to_key + amount)\<rparr>))"

text \<open>
  Modelled from the spec: \<open>invoke_signed\<close> is the runtime's code, outside the
  repository. Section 4.3: the source did not sign the transaction, so the debit is
  accepted only when the signer seeds re-derive the address of the account debited.
\<close>

definition invoke_signed_transfer ::
  "env \<Rightarrow> ledger \<Rightarrow> pubkey \<Rightarrow> pubkey \<Rightarrow> u64 \<Rightarrow> u8 list list \<Rightarrow> error + ledger" where
  "invoke_signed_transfer e s from_key to_key amount signer_seeds =
     (if create_program_address e signer_seeds programID = Some from_key
      then transfer s from_key to_key amount
      else Inl MissingRequiredSignature)"

text \<open>Rust's \<open>x += 1\<close> on a \<open>u64\<close>; \<open>None\<close> is the overflow panic.\<close>

definition add_assign_1 :: "env \<Rightarrow> u64 \<Rightarrow> u64 option" where
  "add_assign_1 e x = (if overflow_checks e \<and> x + 1 = 0 then None else Some (x + 1))"

subsection \<open>Account validation: the \<open>Deposit\<close> and \<open>Withdraw\<close> structs\<close>

text \<open>
  What a handler receives: the accounts, the deserialised
  \<open>Account<UserInteractions>\<close> (written back to the ledger when the handler returns),
  and the bumps Anchor found while checking the \<open>seeds\<close> constraints.
\<close>

record Context =
  accounts :: AccountMetas
  counter_data :: UserInteractions
  bumps :: "string \<Rightarrow> u8 option"

text \<open>
  Modelled from the spec: what the constraint
  \<open>init_if_needed, space = 16 + 8, payer = signer\<close> expands to is Anchor's macro,
  outside the repository. Section 4.2 (b): an address that holds no \<open>UserInteractions\<close>
  account gets one with both counters at zero, funded by the signer; the payer brings
  its lamports up to the rent-exempt minimum for that space.
\<close>

definition init_if_needed ::
  "env \<Rightarrow> ledger \<Rightarrow> pubkey \<Rightarrow> pubkey \<Rightarrow> error + (ledger \<times> UserInteractions)" where
  "init_if_needed e s payer address =
     (case user_interactions s address of
        Some c \<Rightarrow> Inr (s, c)
      | None \<Rightarrow>
          let rent = minimum_balance e (16 + 8);
              required = (if lamports s address < rent then rent - lamports s address else 0)
          in (case transfer s payer address required of
                Inl err \<Rightarrow> Inl err
              | Inr s1 \<Rightarrow>
                  let zeroed = \<lparr>total_deposits = 0, total_withdrawals = 0\<rparr>
                  in Inr (s1\<lparr>user_interactions := (user_interactions s1)(address \<mapsto> zeroed)\<rparr>,
                          zeroed)))"

text \<open>
  \<open>#[derive(Accounts)] pub struct Deposit\<close>, field by field: \<open>signer: Signer\<close> must
  have signed, \<open>system_program: Program<System>\<close> must be the System Program,
  \<open>user_interactions_counter\<close> must be at the address its \<open>seeds\<close> derive and is
  created if needed, \<open>user_vault_account\<close> must be at the address its \<open>seeds\<close>
  derive. The order is the one of Anchor's \<open>derive\<close>: it first deserialises the plain
  fields, then runs the \<open>init\<close> constraints, then the constraints of the other fields.
  A bump search that finds nothing panics.
\<close>

definition Deposit_try_accounts :: "env \<Rightarrow> ledger \<Rightarrow> AccountMetas \<Rightarrow> error + (ledger \<times> Context)" where
  "Deposit_try_accounts e s a =
     (if \<not> is_signer a then Inl UnauthorizedSigner
      else if system_program a \<noteq> SYSTEM_PROGRAM_ID then Inl InvalidProgramId
      else
        (case find_program_address e [counter_tag, toBuffer (signer a)] programID of
           None \<Rightarrow> Inl ProgramPanicked
         | Some (counter_pda, counter_bump) \<Rightarrow>
             if user_interactions_counter a \<noteq> counter_pda then Inl AddressMismatch
             else
               (case init_if_needed e s (signer a) (user_interactions_counter a) of
                  Inl err \<Rightarrow> Inl err
                | Inr (s1, c) \<Rightarrow>
                    (case find_program_address e [vault_tag, toBuffer (signer a)] programID of
                       None \<Rightarrow> Inl ProgramPanicked
                     | Some (vault_pda, vault_bump) \<Rightarrow>
                         if user_vault_account a \<noteq> vault_pda then Inl AddressMismatch
                         else Inr (s1, \<lparr>accounts = a, counter_data = c,
                                        bumps = [''user_interactions_counter'' \<mapsto> counter_bump,
                                                 ''user_vault_account'' \<mapsto> vault_bump]\<rparr>)))))"

text \<open>
  \<open>#[derive(Accounts)] pub struct Withdraw\<close>. No field is \<open>init\<close>: Anchor
  deserialises every field in the order of the struct
  (\<open>user_interactions_counter: Account<UserInteractions>\<close> must already hold data, then
  \<open>Signer\<close>, then \<open>Program<System>\<close>), then checks the \<open>seeds\<close> of
  \<open>user_vault_account\<close> and of \<open>user_interactions_counter\<close>.
\<close>

definition Withdraw_try_accounts :: "env \<Rightarrow> ledger \<Rightarrow> AccountMetas \<Rightarrow> error + (ledger \<times> Context)" where
  "Withdraw_try_accounts e s a =
     (case user_interactions s (user_interactions_counter a) of
        None \<Rightarrow> Inl CounterNotFound
      | Some c \<Rightarrow>
          if \<not> is_signer a then Inl UnauthorizedSigner
          else if system_program a \<noteq> SYSTEM_PROGRAM_ID then Inl InvalidProgramId
          else
            (case find_program_address e [vault_tag, toBuffer (signer a)] programID of
               None \<Rightarrow> Inl ProgramPanicked
             | Some (vault_pda, vault_bump) \<Rightarrow>
                 if user_vault_account a \<noteq> vault_pda then Inl AddressMismatch
                 else
                   (case find_program_address e [counter_tag, toBuffer (signer a)] programID of
                      None \<Rightarrow> Inl ProgramPanicked
                    | Some (counter_pda, counter_bump) \<Rightarrow>
                        if user_interactions_counter a \<noteq> counter_pda then Inl AddressMismatch
                        else Inr (s, \<lparr>accounts = a, counter_data = c,
                                      bumps = [''user_vault_account'' \<mapsto> vault_bump,
                                               ''user_interactions_counter'' \<mapsto> counter_bump]\<rparr>))))"

subsection \<open>The instruction handlers\<close>

text \<open>\<open>pub fn deposit(ctx: Context<Deposit>, amount: u64) -> Result<()>\<close>.\<close>

definition deposit :: "env \<Rightarrow> ledger \<Rightarrow> Context \<Rightarrow> u64 \<Rightarrow> error + (ledger \<times> Context)" where
  "deposit e s ctx amount =
     (case transfer s (signer (accounts ctx)) (user_vault_account (accounts ctx)) amount of
        Inl err \<Rightarrow> Inl err
      | Inr s1 \<Rightarrow>
          (case add_assign_1 e (total_deposits (counter_data ctx)) of
             None \<Rightarrow> Inl ProgramPanicked
           | Some n \<Rightarrow> Inr (s1, ctx\<lparr>counter_data := (counter_data ctx)\<lparr>total_deposits := n\<rparr>\<rparr>)))"

text \<open>\<open>pub fn withdraw(ctx: Context<Withdraw>, amount: u64) -> Result<()>\<close>.\<close>

definition withdraw :: "env \<Rightarrow> ledger \<Rightarrow> Context \<Rightarrow> u64 \<Rightarrow> error + (ledger \<times> Context)" where
  "withdraw e s ctx amount =
     (case bumps ctx ''user_vault_account'' of
        None \<Rightarrow> Inl ProgramPanicked
      | Some bump \<Rightarrow>
          (case invoke_signed_transfer e s
                  (user_vault_account (accounts ctx)) (signer (accounts ctx)) amount
                  [vault_tag, toBuffer (signer (accounts ctx)), [bump]] of
             Inl err \<Rightarrow> Inl err
           | Inr s1 \<Rightarrow>
               (case add_assign_1 e (total_withdrawals (counter_data ctx)) of
                  None \<Rightarrow> Inl ProgramPanicked
                | Some n \<Rightarrow> Inr (s1, ctx\<lparr>counter_data := (counter_data ctx)\<lparr>total_withdrawals := n\<rparr>\<rparr>))))"

text \<open>
  Modelled from the spec: the exit of an instruction is Anchor's code. When a handler
  returns \<open>Ok\<close>, the \<open>Account<UserInteractions>\<close> it worked on is serialised back
  into the account's data (section 6, "Persisted layout").
\<close>

definition exit_accounts :: "ledger \<Rightarrow> Context \<Rightarrow> ledger" where
  "exit_accounts s ctx =
     s\<lparr>user_interactions := (user_interactions s)
          (user_interactions_counter (accounts ctx) \<mapsto> counter_data ctx)\<rparr>"

subsection \<open>Dispatch and commit\<close>

datatype instruction = Deposit AccountMetas u64 | Withdraw AccountMetas u64

text \<open>One instruction: validate the accounts, run the handler, write the accounts back.\<close>

definition dispatch :: "env \<Rightarrow> ledger \<Rightarrow> instruction \<Rightarrow> error + ledger" where
  "dispatch e s ix =
     (case ix of
        Deposit a amount \<Rightarrow>
          (case Deposit_try_accounts e s a of
             Inl err \<Rightarrow> Inl err
           | Inr (s1, ctx) \<Rightarrow>
               (case deposit e s1 ctx amount of
                  Inl err \<Rightarrow> Inl err
                | Inr (s2, ctx') \<Rightarrow> Inr (exit_accounts s2 ctx')))
      | Withdraw a amount \<Rightarrow>
          (case Withdraw_try_accounts e s a of
             Inl err \<Rightarrow> Inl err
           | Inr (s1, ctx) \<Rightarrow>
               (case withdraw e s1 ctx amount of
                  Inl err \<Rightarrow> Inl err
                | Inr (s2, ctx') \<Rightarrow> Inr (exit_accounts s2 ctx'))))"

text \<open>
  Modelled from the spec: the commit is the ledger's, not the program's (section 5,
  "the ledger's native atomic-commit unit"). The client sends every call as a
  transaction of its own (\<open>.rpc()\<close>). The ledger commits the account changes of a
  transaction only when its instruction returned \<open>Ok\<close>; after an error the ledger is
  the one before the call. What the runtime does
  around the program (the transaction fee it charges to the fee payer, its rent checks
  on the accounts written) is not part of the program and is left out.
\<close>

definition process_instruction :: "env \<Rightarrow> ledger \<Rightarrow> instruction \<Rightarrow> (error + unit) \<times> ledger" where
  "process_instruction e s ix =
     (case dispatch e s ix of Inl err \<Rightarrow> (Inl err, s) | Inr s' \<Rightarrow> (Inr (), s'))"

text \<open>A sequence of calls, one after the other.\<close>

fun process_all :: "env \<Rightarrow> ledger \<Rightarrow> instruction list \<Rightarrow> ledger" where
  "process_all e s [] = s"
| "process_all e s (ix # ixs) = process_all e (snd (process_instruction e s ix)) ixs"

section \<open>Observations and notions used by the properties\<close>

text \<open>
  What the client reads back (\<open>DepositCard\<close>): the balance of the vault address is
  \<open>lamports\<close>; the counters are the fields of the fetched account, shown as 0 while the
  account does not exist (\<open>interactionsData?.totalDeposits ?? 0\<close>).
\<close>

definition totalDeposits :: "ledger \<Rightarrow> pubkey \<Rightarrow> u64" where
  "totalDeposits s address =
     (case user_interactions s address of None \<Rightarrow> 0 | Some c \<Rightarrow> total_deposits c)"

definition totalWithdrawals :: "ledger \<Rightarrow> pubkey \<Rightarrow> u64" where
  "totalWithdrawals s address =
     (case user_interactions s address of None \<Rightarrow> 0 | Some c \<Rightarrow> total_withdrawals c)"

text \<open>The accounts of a call are the ones derived from its signer.\<close>

definition derived_accounts :: "env \<Rightarrow> AccountMetas \<Rightarrow> bool" where
  "derived_accounts e a \<longleftrightarrow>
     getVaultPDA e (signer a) = Some (user_vault_account a) \<and>
     getCounterPDA e (signer a) = Some (user_interactions_counter a)"

fun accounts_of :: "instruction \<Rightarrow> AccountMetas" where
  "accounts_of (Deposit a amount) = a"
| "accounts_of (Withdraw a amount) = a"

text \<open>
  The byte string hashed for the address of \<open>tag\<close> and \<open>owner\<close> at a bump, and the
  search criterion of section 4.1 stated declaratively: \<open>bump\<close> is a candidate of the
  search, its digest is off the curve, and every candidate tried before it is rejected.
\<close>

definition pda_preimage :: "u8 list \<Rightarrow> pubkey \<Rightarrow> u8 \<Rightarrow> u8 list" where
  "pda_preimage tag owner bump =
     concat [tag, toBuffer owner, [bump]] @ toBuffer programID @ PDA_MARKER"

definition first_valid_bump :: "env \<Rightarrow> u8 list list \<Rightarrow> pubkey \<Rightarrow> pubkey \<Rightarrow> u8 \<Rightarrow> bool" where
  "first_valid_bump e seeds program_id address bump \<longleftrightarrow>
     bump \<noteq> 0 \<and>
     create_program_address e (seeds @ [[bump]]) program_id = Some address \<and>
     (\<forall>b. bump < b \<longrightarrow> create_program_address e (seeds @ [[b]]) program_id = None)"

text \<open>
  The hash does not collide on the candidate preimages of two (tag, owner) pairs: equal
  digests come from equal byte strings only.
\<close>

definition no_collision :: "env \<Rightarrow> u8 list \<Rightarrow> pubkey \<Rightarrow> u8 list \<Rightarrow> pubkey \<Rightarrow> bool" where
  "no_collision e tag1 owner1 tag2 owner2 \<longleftrightarrow>
     (\<forall>b1 b2. sha256 e (pda_preimage tag1 owner1 b1) = sha256 e (pda_preimage tag2 owner2 b2)
                \<longrightarrow> pda_preimage tag1 owner1 b1 = pda_preimage tag2 owner2 b2)"



text \<open>
  The deposits and withdrawals a successful instruction counts on the counter account
  \<open>x\<close>: one per call, whatever the amount.
\<close>

fun deposits_made :: "instruction \<Rightarrow> pubkey \<Rightarrow> u64" where
  "deposits_made (Deposit a amount) x = (if user_interactions_counter a = x then 1 else 0)"
| "deposits_made (Withdraw a amount) x = 0"

fun withdrawals_made :: "instruction \<Rightarrow> pubkey \<Rightarrow> u64" where
  "withdrawals_made (Deposit a amount) x = 0"
| "withdrawals_made (Withdraw a amount) x = (if user_interactions_counter a = x then 1 else 0)"


section \<open>A small instance to run the model on\<close>

text \<open>
  A toy instance of the primitives: the digest is built from the first byte of the tag,
  the last byte of the owner's key and the bump; a value is on the curve when its lowest
  byte exceeds 253, so the bump search rejects 255 and 254 and stops at 253; rent is
  Solana's default of 6960 lamports per byte over 128 bytes of overhead.
\<close>

definition toy_env :: env where
  "toy_env =
     \<lparr>sha256 = (\<lambda>bs. if hd bs = 118
                     then of_nat (65536 + 256 * unat (bs ! 36) + unat (bs ! 37))
                     else of_nat (131072 + 256 * unat (bs ! 38) + unat (bs ! 39))),
      is_on_curve = (\<lambda>k. 253 < (ucast k :: u8)),
      minimum_balance = (\<lambda>space. of_nat ((128 + space) * 6960)),
      overflow_checks = True\<rparr>"

text \<open>
  Owner 255 with its derived accounts (vault 131069, counter 196605), and a ledger where
  only the owners 255 and 254 hold lamports and no counter exists (Scenario A of the
  specification).
\<close>

definition alice :: AccountMetas where
  "alice = \<lparr>user_vault_account = 131069, user_interactions_counter = 196605,
             signer = 255, is_signer = True, system_program = 0\<rparr>"

definition genesis :: ledger where
  "genesis = \<lparr>lamports = (\<lambda>k. if k = 255 then 5000000000
                              else if k = 254 then 2000000000 else 0),
               user_interactions = (\<lambda>k. None)\<rparr>"

text \<open>
  The same owner passing a vault account that is not the derived one, and a second
  owner 254 with its derived accounts (vault 130813, counter 196349).
\<close>

definition mallory :: AccountMetas where
  "mallory = alice\<lparr>user_vault_account := 7\<rparr>"

definition bob :: AccountMetas where
  "bob = \<lparr>user_vault_account = 130813, user_interactions_counter = 196349,
           signer = 254, is_signer = True, system_program = 0\<rparr>"

text \<open>
  The second owner passing an account of the first in the counter place: the first
  owner's counter account (\<open>trudy\<close>), and the first owner's vault account
  (\<open>oscar\<close>).
\<close>

definition trudy :: AccountMetas where
  "trudy = bob\<lparr>user_interactions_counter := 196605\<rparr>"


text \<open>
  Scenario A: the owner deposits 1,000,000,000 lamports. Scenario C: the owner then
  withdraws them. Scenario D: the second owner deposits after Scenario A.
\<close>

definition scenario_A :: ledger where
  "scenario_A = snd (process_instruction toy_env genesis (Deposit alice 1000000000))"

definition scenario_C :: ledger where
  "scenario_C = snd (process_instruction toy_env scenario_A (Withdraw alice 1000000000))"


text \<open>
  The same primitives in a build without overflow checks, a ledger in which the
  owner's \<open>total_deposits\<close> has reached the largest \<open>u64\<close>, and one in which
  \<open>total_withdrawals\<close> has.
\<close>

definition wrapping_env :: env where
  "wrapping_env = toy_env\<lparr>overflow_checks := False\<rparr>"

definition saturated :: ledger where
  "saturated =
     scenario_A\<lparr>user_interactions :=
       [196605 \<mapsto> \<lparr>total_deposits = 18446744073709551615, total_withdrawals = 0\<rparr>]\<rparr>"

definition saturated_w :: ledger where
  "saturated_w =
     scenario_A\<lparr>user_interactions :=
       [196605 \<mapsto> \<lparr>total_deposits = 1, total_withdrawals = 18446744073709551615\<rparr>]\<rparr>"

section \<open>Facts about the embedding\<close>

lemma length_toBuffer: "length (toBuffer k) = 32"
  by (simp add: toBuffer_def)

subsection \<open>The bump search\<close>

lemma unat_bump: "n \<le> 255 \<Longrightarrow> unat (of_nat n :: u8) = n"
  by (simp add: unat_of_nat)

lemma find_bump_iff:
  "n \<le> 255 \<Longrightarrow>
   find_bump e seeds pid n = Some (address, bump) \<longleftrightarrow>
     bump \<noteq> 0 \<and> unat bump \<le> n \<and>
     create_program_address e (seeds @ [[bump]]) pid = Some address \<and>
     (\<forall>b. unat bump < unat b \<and> unat b \<le> n \<longrightarrow>
            create_program_address e (seeds @ [[b]]) pid = None)"
proof (induction n)
  case 0
  then show ?case
    by (auto simp: unat_eq_0)
next
  case (Suc n)
  define w :: u8 where "w = of_nat (Suc n)"
  have w: "unat w = Suc n"
    using Suc.prems by (simp add: w_def unat_bump del: of_nat_Suc)
  have top: "b = w" if "unat b = Suc n" for b :: u8
    using that w by (simp add: word_unat_eq_iff)
  from Suc have IH:
    "find_bump e seeds pid n = Some (address, bump) \<longleftrightarrow>
       bump \<noteq> 0 \<and> unat bump \<le> n \<and>
       create_program_address e (seeds @ [[bump]]) pid = Some address \<and>
       (\<forall>b. unat bump < unat b \<and> unat b \<le> n \<longrightarrow>
              create_program_address e (seeds @ [[b]]) pid = None)"
    by simp
  show ?case
  proof (cases "create_program_address e (seeds @ [[w]]) pid")
    case None
    then have step: "find_bump e seeds pid (Suc n) = find_bump e seeds pid n"
      by (simp add: w_def del: of_nat_Suc)
    have "unat bump \<le> n" if "unat bump \<le> Suc n"
      and "create_program_address e (seeds @ [[bump]]) pid = Some address"
      using that None top [of bump] by (cases "unat bump = Suc n") auto
    moreover have "create_program_address e (seeds @ [[b]]) pid = None"
      if "unat b \<le> Suc n" "\<not> unat b \<le> n" for b
      using that None top [of b] by (cases "unat b = Suc n") auto
    ultimately show ?thesis
      unfolding step IH by (metis le_SucI)
  next
    case (Some a')
    then have step: "find_bump e seeds pid (Suc n) = Some (a', w)"
      by (simp add: w_def del: of_nat_Suc)
    have "bump = w" if "unat bump \<le> Suc n"
      and "\<forall>b. unat bump < unat b \<and> unat b \<le> Suc n \<longrightarrow>
                 create_program_address e (seeds @ [[b]]) pid = None"
    proof (rule top, rule ccontr)
      assume "unat bump \<noteq> Suc n"
      with that(1) have "unat bump < unat w \<and> unat w \<le> Suc n"
        using w by simp
      with that(2) have "create_program_address e (seeds @ [[w]]) pid = None"
        by blast
      with Some show False by simp
    qed
    moreover have "w \<noteq> 0"
      using w by (auto simp: unat_eq_0)
    ultimately show ?thesis
      unfolding step using Some w by auto
  qed
qed

lemma find_program_address_iff:
  "find_program_address e seeds pid = Some (address, bump)
     \<longleftrightarrow> first_valid_bump e seeds pid address bump"
proof -
  have "unat b \<le> 255" for b :: u8
    using unsigned_less [of b, where 'a = nat] by simp
  then show ?thesis
    unfolding find_program_address_def first_valid_bump_def
    by (simp add: find_bump_iff word_less_nat_alt)
qed

lemma first_valid_bump_unique:
  assumes "first_valid_bump e seeds pid a1 b1" and "first_valid_bump e seeds pid a2 b2"
  shows "a1 = a2 \<and> b1 = b2"
  using assms unfolding find_program_address_iff [symmetric] by simp

subsection \<open>Transfers\<close>

lemma u64_sub: "(b::u64) \<le> a \<Longrightarrow> uint (a - b) = uint a - uint b"
  by (simp add: uint_minus_simple_alt)

lemma u64_add: "unat (a::u64) + unat b < 2 ^ 64 \<Longrightarrow> uint (a + b) = uint a + uint b"
proof -
  assume "unat a + unat b < 2 ^ 64"
  then have "unat (a + b) = unat a + unat b"
    using unat_add_lem [of a b] by simp
  then show ?thesis
    by (simp only: uint_nat of_nat_add)
qed

lemma transfer_user_interactions:
  "transfer s f t amount = Inr s' \<Longrightarrow> user_interactions s' = user_interactions s"
  by (auto simp: transfer_def Let_def split: if_splits)

lemma transfer_other:
  "transfer s f t amount = Inr s' \<Longrightarrow> x \<noteq> f \<Longrightarrow> x \<noteq> t \<Longrightarrow> lamports s' x = lamports s x"
  by (auto simp: transfer_def Let_def split: if_splits)

lemma transfer_enough:
  "transfer s f t amount = Inr s' \<Longrightarrow> amount \<le> lamports s f"
  by (auto simp: transfer_def Let_def split: if_splits)

lemma transfer_self:
  "transfer s f f amount = Inr s' \<Longrightarrow> lamports s' = lamports s"
  by (auto simp: transfer_def Let_def fun_eq_iff split: if_splits)

lemma transfer_from:
  "transfer s f t amount = Inr s' \<Longrightarrow> f \<noteq> t \<Longrightarrow>
   uint (lamports s' f) = uint (lamports s f) - uint amount"
  by (auto simp: transfer_def Let_def u64_sub split: if_splits)

lemma transfer_to:
  "transfer s f t amount = Inr s' \<Longrightarrow> f \<noteq> t \<Longrightarrow>
   uint (lamports s' t) = uint (lamports s t) + uint amount"
  by (auto simp: transfer_def Let_def u64_add split: if_splits)

lemma transfer_fails:
  "transfer s f t amount = Inl err \<Longrightarrow> err = InsufficientFunds \<or> err = ArithmeticOverflow"
  by (auto simp: transfer_def Let_def split: if_splits)

lemma transfer_insufficient:
  "lamports s f < amount \<Longrightarrow> transfer s f t amount = Inl InsufficientFunds"
  by (simp add: transfer_def)

lemma transfer_succeeds:
  "amount \<le> lamports s f \<Longrightarrow> f \<noteq> t \<Longrightarrow> unat (lamports s t) + unat amount < 2 ^ 64 \<Longrightarrow>
   \<exists>s'. transfer s f t amount = Inr s'"
  by (auto simp: transfer_def Let_def)

text \<open>What a successful call went through.\<close>

lemma Deposit_success:
  assumes "dispatch e s (Deposit a amount) = Inr s'"
  obtains counter_bump vault_bump s1 c s2 n where
    "is_signer a" "system_program a = SYSTEM_PROGRAM_ID"
    "find_program_address e [counter_tag, toBuffer (signer a)] programID
       = Some (user_interactions_counter a, counter_bump)"
    "find_program_address e [vault_tag, toBuffer (signer a)] programID
       = Some (user_vault_account a, vault_bump)"
    "init_if_needed e s (signer a) (user_interactions_counter a) = Inr (s1, c)"
    "transfer s1 (signer a) (user_vault_account a) amount = Inr s2"
    "add_assign_1 e (total_deposits c) = Some n"
    "s' = s2\<lparr>user_interactions := (user_interactions s2)
              (user_interactions_counter a \<mapsto> c\<lparr>total_deposits := n\<rparr>)\<rparr>"
  using assms
  by (auto simp: dispatch_def Deposit_try_accounts_def deposit_def exit_accounts_def
           split: if_splits option.splits sum.splits prod.splits)

lemma Withdraw_success:
  assumes "dispatch e s (Withdraw a amount) = Inr s'"
  obtains counter_bump vault_bump c s2 n where
    "is_signer a" "system_program a = SYSTEM_PROGRAM_ID"
    "find_program_address e [counter_tag, toBuffer (signer a)] programID
       = Some (user_interactions_counter a, counter_bump)"
    "find_program_address e [vault_tag, toBuffer (signer a)] programID
       = Some (user_vault_account a, vault_bump)"
    "user_interactions s (user_interactions_counter a) = Some c"
    "create_program_address e [vault_tag, toBuffer (signer a), [vault_bump]] programID
       = Some (user_vault_account a)"
    "transfer s (user_vault_account a) (signer a) amount = Inr s2"
    "add_assign_1 e (total_withdrawals c) = Some n"
    "s' = s2\<lparr>user_interactions := (user_interactions s2)
              (user_interactions_counter a \<mapsto> c\<lparr>total_withdrawals := n\<rparr>)\<rparr>"
  using assms
  by (auto simp: dispatch_def Withdraw_try_accounts_def withdraw_def exit_accounts_def
                 invoke_signed_transfer_def
           split: if_splits option.splits sum.splits prod.splits)

subsection \<open>Account validation and handlers\<close>

lemma u64_succ: "(x::u64) + 1 \<noteq> 0 \<Longrightarrow> unat (x + 1) = unat x + 1"
  using unatSuc [of x] by (simp add: add.commute)

lemma add_assign_1_Some: "add_assign_1 e x = Some n \<Longrightarrow> n = x + 1"
  by (auto simp: add_assign_1_def split: if_splits)

lemma add_assign_1_checked:
  "add_assign_1 e x = Some n \<Longrightarrow> overflow_checks e \<Longrightarrow> unat n = unat x + 1"
  by (auto simp: add_assign_1_def u64_succ split: if_splits)

lemma init_if_needed_data:
  "init_if_needed e s payer address = Inr (s1, c) \<Longrightarrow>
   user_interactions s1 = (user_interactions s)(address \<mapsto> c) \<and>
   c = (case user_interactions s address of
          None \<Rightarrow> \<lparr>total_deposits = 0, total_withdrawals = 0\<rparr> | Some c0 \<Rightarrow> c0)"
  by (auto simp: init_if_needed_def Let_def fun_eq_iff transfer_user_interactions
           split: option.splits sum.splits)

lemma init_if_needed_existing:
  "user_interactions s address = Some c \<Longrightarrow> init_if_needed e s payer address = Inr (s, c)"
  by (simp add: init_if_needed_def)

lemma init_if_needed_other:
  "init_if_needed e s payer address = Inr (s1, c) \<Longrightarrow> x \<noteq> payer \<Longrightarrow> x \<noteq> address \<Longrightarrow>
   lamports s1 x = lamports s x"
  by (auto simp: init_if_needed_def Let_def transfer_other split: option.splits sum.splits)

lemma find_program_address_getVaultPDA:
  "find_program_address e [vault_tag, toBuffer k] programID = Some (v, b) \<Longrightarrow>
   getVaultPDA e k = Some v"
  by (simp add: getVaultPDA_def)

lemma find_program_address_getCounterPDA:
  "find_program_address e [counter_tag, toBuffer k] programID = Some (c, b) \<Longrightarrow>
   getCounterPDA e k = Some c"
  by (simp add: getCounterPDA_def)

lemma process_instruction_cases:
  "process_instruction e s ix = (r, s') \<Longrightarrow>
   (r = Inr () \<and> dispatch e s ix = Inr s') \<or> (\<exists>err. r = Inl err \<and> dispatch e s ix = Inl err \<and> s' = s)"
  by (auto simp: process_instruction_def split: sum.splits)

lemma Deposit_derived:
  "dispatch e s (Deposit a amount) = Inr s' \<Longrightarrow> derived_accounts e a"
  by (erule Deposit_success)
     (simp add: derived_accounts_def find_program_address_getVaultPDA
                find_program_address_getCounterPDA)

lemma Deposit_vault_balance:
  assumes "dispatch e s (Deposit a amount) = Inr s'"
      and "signer a \<noteq> user_vault_account a"
      and "user_interactions_counter a \<noteq> user_vault_account a"
  shows "uint (lamports s' (user_vault_account a))
           = uint (lamports s (user_vault_account a)) + uint amount"
  using assms(1)
proof (rule Deposit_success)
  fix s1 c s2 n
  assume init: "init_if_needed e s (signer a) (user_interactions_counter a) = Inr (s1, c)"
     and tr: "transfer s1 (signer a) (user_vault_account a) amount = Inr s2"
     and s': "s' = s2\<lparr>user_interactions := (user_interactions s2)
              (user_interactions_counter a \<mapsto> c\<lparr>total_deposits := n\<rparr>)\<rparr>"
  have "lamports s1 (user_vault_account a) = lamports s (user_vault_account a)"
    using init_if_needed_other [OF init] assms(2,3) by simp
  moreover have "uint (lamports s2 (user_vault_account a))
                   = uint (lamports s1 (user_vault_account a)) + uint amount"
    using transfer_to [OF tr assms(2)] .
  ultimately show ?thesis
    by (simp add: s')
qed

lemma Deposit_counter:
  assumes "dispatch e s (Deposit a amount) = Inr s'"
  shows "\<exists>c. user_interactions s' (user_interactions_counter a) = Some c \<and>
             total_deposits c = totalDeposits s (user_interactions_counter a) + 1 \<and>
             total_withdrawals c = totalWithdrawals s (user_interactions_counter a) \<and>
             (overflow_checks e \<longrightarrow>
                unat (total_deposits c) = unat (totalDeposits s (user_interactions_counter a)) + 1)"
  using assms
proof (rule Deposit_success)
  fix s1 c s2 n
  assume init: "init_if_needed e s (signer a) (user_interactions_counter a) = Inr (s1, c)"
     and n: "add_assign_1 e (total_deposits c) = Some n"
     and s': "s' = s2\<lparr>user_interactions := (user_interactions s2)
              (user_interactions_counter a \<mapsto> c\<lparr>total_deposits := n\<rparr>)\<rparr>"
  have c: "total_deposits c = totalDeposits s (user_interactions_counter a)"
          "total_withdrawals c = totalWithdrawals s (user_interactions_counter a)"
    using init_if_needed_data [OF init]
    by (auto simp: totalDeposits_def totalWithdrawals_def split: option.splits)
  show ?thesis
    using add_assign_1_Some [OF n] add_assign_1_checked [OF n] c
    by (simp add: s')
qed

lemma find_bump_create:
  "find_bump e seeds pid n = Some (address, bump) \<Longrightarrow>
   create_program_address e (seeds @ [[bump]]) pid = Some address"
  by (induction n) (auto split: option.splits)

lemma find_program_address_create:
  "find_program_address e seeds pid = Some (address, bump) \<Longrightarrow>
   create_program_address e (seeds @ [[bump]]) pid = Some address"
  unfolding find_program_address_def by (rule find_bump_create)

lemma Withdraw_derived:
  "dispatch e s (Withdraw a amount) = Inr s' \<Longrightarrow> derived_accounts e a"
  by (erule Withdraw_success)
     (simp add: derived_accounts_def find_program_address_getVaultPDA
                find_program_address_getCounterPDA)

lemma Withdraw_balances:
  assumes "dispatch e s (Withdraw a amount) = Inr s'"
      and "signer a \<noteq> user_vault_account a"
  shows "amount \<le> lamports s (user_vault_account a) \<and>
         uint (lamports s' (user_vault_account a))
           = uint (lamports s (user_vault_account a)) - uint amount \<and>
         uint (lamports s' (signer a)) = uint (lamports s (signer a)) + uint amount"
  using assms(1)
proof (rule Withdraw_success)
  fix c s2 n
  assume tr: "transfer s (user_vault_account a) (signer a) amount = Inr s2"
     and s': "s' = s2\<lparr>user_interactions := (user_interactions s2)
              (user_interactions_counter a \<mapsto> c\<lparr>total_withdrawals := n\<rparr>)\<rparr>"
  show ?thesis
    using transfer_enough [OF tr] transfer_from [OF tr] transfer_to [OF tr] assms(2)
    by (simp add: s')
qed

lemma Withdraw_counter:
  assumes "dispatch e s (Withdraw a amount) = Inr s'"
  shows "\<exists>c. user_interactions s (user_interactions_counter a) = Some c \<and>
             user_interactions s' (user_interactions_counter a)
               = Some (c\<lparr>total_withdrawals := total_withdrawals c + 1\<rparr>) \<and>
             (overflow_checks e \<longrightarrow>
                unat (total_withdrawals c + 1) = unat (total_withdrawals c) + 1)"
  using assms
proof (rule Withdraw_success)
  fix c s2 n
  assume c: "user_interactions s (user_interactions_counter a) = Some c"
     and n: "add_assign_1 e (total_withdrawals c) = Some n"
     and s': "s' = s2\<lparr>user_interactions := (user_interactions s2)
              (user_interactions_counter a \<mapsto> c\<lparr>total_withdrawals := n\<rparr>)\<rparr>"
  show ?thesis
    using add_assign_1_Some [OF n] add_assign_1_checked [OF n] c
    by (auto simp: s')
qed

lemma Withdraw_no_counter:
  "user_interactions s (user_interactions_counter a) = None \<Longrightarrow>
   dispatch e s (Withdraw a amount) = Inl CounterNotFound"
  by (simp add: dispatch_def Withdraw_try_accounts_def)

lemma Withdraw_try_accounts_ok:
  assumes "is_signer a" "system_program a = SYSTEM_PROGRAM_ID" "derived_accounts e a"
      and "user_interactions s (user_interactions_counter a) = Some c"
  obtains vault_bump bs where
    "Withdraw_try_accounts e s a = Inr (s, \<lparr>accounts = a, counter_data = c, bumps = bs\<rparr>)"
    "bs ''user_vault_account'' = Some vault_bump"
    "create_program_address e [vault_tag, toBuffer (signer a), [vault_bump]] programID
       = Some (user_vault_account a)"
proof -
  from assms(3) obtain vb cb where
    v: "find_program_address e [vault_tag, toBuffer (signer a)] programID
          = Some (user_vault_account a, vb)" and
    c: "find_program_address e [counter_tag, toBuffer (signer a)] programID
          = Some (user_interactions_counter a, cb)"
    by (auto simp: derived_accounts_def getVaultPDA_def getCounterPDA_def)
  show ?thesis
  proof (rule that)
    show "Withdraw_try_accounts e s a = Inr (s, \<lparr>accounts = a, counter_data = c,
            bumps = [''user_vault_account'' \<mapsto> vb, ''user_interactions_counter'' \<mapsto> cb]\<rparr>)"
      using assms v c by (simp add: Withdraw_try_accounts_def)
    show "[''user_vault_account'' \<mapsto> vb, ''user_interactions_counter'' \<mapsto> cb]
            ''user_vault_account'' = Some vb"
      by simp
    show "create_program_address e [vault_tag, toBuffer (signer a), [vb]] programID
            = Some (user_vault_account a)"
      using find_program_address_create [OF v] by simp
  qed
qed

lemma Withdraw_insufficient:
  assumes "is_signer a" "system_program a = SYSTEM_PROGRAM_ID" "derived_accounts e a"
      and "user_interactions s (user_interactions_counter a) = Some c"
      and "lamports s (user_vault_account a) < amount"
  shows "dispatch e s (Withdraw a amount) = Inl InsufficientFunds"
  using assms(1-4)
proof (rule Withdraw_try_accounts_ok)
  fix vault_bump bs
  assume "Withdraw_try_accounts e s a = Inr (s, \<lparr>accounts = a, counter_data = c, bumps = bs\<rparr>)"
     and "bs ''user_vault_account'' = Some vault_bump"
     and "create_program_address e [vault_tag, toBuffer (signer a), [vault_bump]] programID
            = Some (user_vault_account a)"
  then show ?thesis
    using transfer_insufficient [OF assms(5)]
    by (simp add: dispatch_def withdraw_def invoke_signed_transfer_def)
qed

lemma Withdraw_all:
  assumes "is_signer a" "system_program a = SYSTEM_PROGRAM_ID" "derived_accounts e a"
      and "user_interactions s (user_interactions_counter a) = Some c"
      and "amount = lamports s (user_vault_account a)"
      and "signer a \<noteq> user_vault_account a"
      and "unat (lamports s (signer a)) + unat amount < 2 ^ 64"
      and "\<not> (overflow_checks e \<and> total_withdrawals c + 1 = 0)"
  shows "\<exists>s'. dispatch e s (Withdraw a amount) = Inr s' \<and>
              lamports s' (user_vault_account a) = 0 \<and>
              user_interactions s' (user_interactions_counter a)
                = Some (c\<lparr>total_withdrawals := total_withdrawals c + 1\<rparr>)"
  using assms(1-4)
proof (rule Withdraw_try_accounts_ok)
  fix vault_bump bs
  assume "Withdraw_try_accounts e s a = Inr (s, \<lparr>accounts = a, counter_data = c, bumps = bs\<rparr>)"
     and "bs ''user_vault_account'' = Some vault_bump"
     and "create_program_address e [vault_tag, toBuffer (signer a), [vault_bump]] programID
            = Some (user_vault_account a)"
  then show ?thesis
    using assms(5-8)
    by (auto simp: dispatch_def withdraw_def invoke_signed_transfer_def transfer_def
                   add_assign_1_def exit_accounts_def Let_def)
qed

subsection \<open>Digests and preimages\<close>

lemma toBuffer_byte:
  assumes "i < 32"
  shows "toBuffer k ! i = ucast (drop_bit (8 * (31 - i)) k)"
  using assms by (simp add: toBuffer_def)

lemma toBuffer_inj:
  assumes "toBuffer k = toBuffer k'"
  shows "k = k'"
proof (rule bit_word_eqI)
  fix n :: nat
  assume "n < LENGTH(256)"
  then have n: "n < 256" by simp
  define i where "i = 31 - n div 8"
  have i: "i < 32" "8 * (31 - i) = 8 * (n div 8)"
    using n by (simp_all add: i_def)
  have "(ucast (drop_bit (8 * (31 - i)) k) :: u8) = ucast (drop_bit (8 * (31 - i)) k')"
    using assms toBuffer_byte [OF i(1), of k] toBuffer_byte [OF i(1), of k'] by simp
  then have "bit (ucast (drop_bit (8 * (n div 8)) k) :: u8) (n mod 8)
               \<longleftrightarrow> bit (ucast (drop_bit (8 * (n div 8)) k') :: u8) (n mod 8)"
    by (simp add: i(2))
  then show "bit k n \<longleftrightarrow> bit k' n"
    by (simp add: bit_ucast_iff bit_drop_bit_eq)
qed

lemma pda_preimage_inj:
  assumes "tag1 = vault_tag \<or> tag1 = counter_tag" and "tag2 = vault_tag \<or> tag2 = counter_tag"
      and "pda_preimage tag1 owner1 b1 = pda_preimage tag2 owner2 b2"
  shows "tag1 = tag2 \<and> owner1 = owner2"
proof -
  have tags: "tag1 = tag2"
    using assms by (auto simp: pda_preimage_def vault_tag_def counter_tag_def)
  with assms(3) have "toBuffer owner1 @ [b1] = toBuffer owner2 @ [b2]"
    by (simp add: pda_preimage_def)
  then have "toBuffer owner1 = toBuffer owner2"
    by simp
  with tags show ?thesis
    by (simp add: toBuffer_inj)
qed

lemma find_program_address_digest:
  assumes "find_program_address e [tag, toBuffer owner] programID = Some (address, bump)"
  shows "address = sha256 e (pda_preimage tag owner bump) \<and> \<not> is_on_curve e address"
  using find_program_address_create [OF assms]
  by (auto simp: create_program_address_def pda_preimage_def Let_def split: if_splits)

lemma derived_apart:
  assumes "find_program_address e [tag1, toBuffer owner1] programID = Some (a1, b1)"
      and "find_program_address e [tag2, toBuffer owner2] programID = Some (a2, b2)"
      and "tag1 = vault_tag \<or> tag1 = counter_tag" and "tag2 = vault_tag \<or> tag2 = counter_tag"
      and "tag1 \<noteq> tag2 \<or> owner1 \<noteq> owner2"
      and "no_collision e tag1 owner1 tag2 owner2"
  shows "a1 \<noteq> a2"
proof
  assume "a1 = a2"
  with find_program_address_digest [OF assms(1)] find_program_address_digest [OF assms(2)]
  have "sha256 e (pda_preimage tag1 owner1 b1) = sha256 e (pda_preimage tag2 owner2 b2)"
    by simp
  with assms(6) have "pda_preimage tag1 owner1 b1 = pda_preimage tag2 owner2 b2"
    by (simp add: no_collision_def)
  from pda_preimage_inj [OF assms(3,4) this] assms(5) show False
    by simp
qed


lemma getCounterPDA_off_curve: "getCounterPDA e owner = Some c \<Longrightarrow> \<not> is_on_curve e c"
  by (auto simp: getCounterPDA_def dest: find_program_address_digest)

subsection \<open>What a call leaves alone\<close>

lemma dispatch_frame:
  assumes "dispatch e s ix = Inr s'"
  shows "(x \<noteq> user_interactions_counter (accounts_of ix) \<longrightarrow>
            user_interactions s' x = user_interactions s x) \<and>
         (x \<noteq> signer (accounts_of ix) \<longrightarrow> x \<noteq> user_vault_account (accounts_of ix) \<longrightarrow>
          x \<noteq> user_interactions_counter (accounts_of ix) \<longrightarrow> lamports s' x = lamports s x)"
proof (cases ix)
  case (Deposit a amount)
  from assms [unfolded Deposit] show ?thesis
  proof (rule Deposit_success)
    fix s1 c s2 n
    assume init: "init_if_needed e s (signer a) (user_interactions_counter a) = Inr (s1, c)"
       and tr: "transfer s1 (signer a) (user_vault_account a) amount = Inr s2"
       and s': "s' = s2\<lparr>user_interactions := (user_interactions s2)
                (user_interactions_counter a \<mapsto> c\<lparr>total_deposits := n\<rparr>)\<rparr>"
    show ?thesis
      using init_if_needed_data [OF init] init_if_needed_other [OF init, of x]
            transfer_user_interactions [OF tr] transfer_other [OF tr, of x]
      by (simp add: s' Deposit)
  qed
next
  case (Withdraw a amount)
  from assms [unfolded Withdraw] show ?thesis
  proof (rule Withdraw_success)
    fix c s2 n
    assume tr: "transfer s (user_vault_account a) (signer a) amount = Inr s2"
       and s': "s' = s2\<lparr>user_interactions := (user_interactions s2)
                (user_interactions_counter a \<mapsto> c\<lparr>total_withdrawals := n\<rparr>)\<rparr>"
    show ?thesis
      using transfer_user_interactions [OF tr] transfer_other [OF tr, of x]
      by (simp add: s' Withdraw)
  qed
qed


lemma Withdraw_deposits_kept:
  assumes "dispatch e s (Withdraw a amount) = Inr s'"
  shows "totalDeposits s' (user_interactions_counter a)
           = totalDeposits s (user_interactions_counter a)"
  using Withdraw_counter [OF assms] by (auto simp: totalDeposits_def)

lemma Deposit_withdrawals_kept:
  assumes "dispatch e s (Deposit a amount) = Inr s'"
  shows "totalWithdrawals s' (user_interactions_counter a)
           = totalWithdrawals s (user_interactions_counter a)"
  using Deposit_counter [OF assms] by (auto simp: totalWithdrawals_def)

lemma accounts_persist:
  assumes "dispatch e s ix = Inr s'" and "user_interactions s x \<noteq> None"
  shows "user_interactions s' x \<noteq> None"
proof (cases "x = user_interactions_counter (accounts_of ix)")
  case True
  show ?thesis
  proof (cases ix)
    case (Deposit a amount)
    with assms(1) True Deposit_counter [of e s a amount s'] show ?thesis
      by auto
  next
    case (Withdraw a amount)
    with assms(1) True Withdraw_counter [of e s a amount s'] show ?thesis
      by auto
  qed
next
  case False
  with dispatch_frame [OF assms(1), of x] assms(2) show ?thesis
    by simp
qed



subsection \<open>The balance of a vault account along a sequence of calls\<close>




subsection \<open>The counters along a sequence of calls\<close>

lemma u64_no_wrap: "unat (x::u64) + 1 < 2 ^ 64 \<Longrightarrow> x + 1 \<noteq> 0"
proof
  assume bound: "unat x + 1 < 2 ^ 64" and wrap: "x + 1 = 0"
  from bound have "unat (x + 1) = unat x + 1"
    using unat_add_lem [of x 1] by simp
  with wrap show False by simp
qed

lemma Deposit_totalDeposits:
  assumes "dispatch e s (Deposit a amount) = Inr s'"
  shows "totalDeposits s' (user_interactions_counter a)
           = totalDeposits s (user_interactions_counter a) + 1"
proof -
  from Deposit_counter [OF assms] obtain c where
    "user_interactions s' (user_interactions_counter a) = Some c"
    "total_deposits c = totalDeposits s (user_interactions_counter a) + 1"
    by blast
  then show ?thesis
    by (simp add: totalDeposits_def)
qed

lemma Withdraw_totalWithdrawals:
  assumes "dispatch e s (Withdraw a amount) = Inr s'"
  shows "totalWithdrawals s' (user_interactions_counter a)
           = totalWithdrawals s (user_interactions_counter a) + 1"
  using Withdraw_counter [OF assms] by (auto simp: totalWithdrawals_def)

lemma step_deposits:
  assumes "process_instruction e s ix = (r, s')"
  shows "totalDeposits s' x
           = totalDeposits s x + (if r = Inr () then deposits_made ix x else 0)"
proof -
  from process_instruction_cases [OF assms]
  consider "r = Inr ()" "dispatch e s ix = Inr s'" | err where "r = Inl err" "s' = s"
    by blast
  then show ?thesis
  proof cases
    case 1
    show ?thesis
    proof (cases "x = user_interactions_counter (accounts_of ix)")
      case True
      then show ?thesis
        using 1 Deposit_totalDeposits [of e s _ _ s'] Withdraw_deposits_kept [of e s _ _ s']
        by (cases ix) auto
    next
      case False
      with dispatch_frame [OF 1(2), of x] show ?thesis
        by (cases ix) (auto simp: totalDeposits_def)
    qed
  next
    case 2
    then show ?thesis by simp
  qed
qed

lemma step_withdrawals:
  assumes "process_instruction e s ix = (r, s')"
  shows "totalWithdrawals s' x
           = totalWithdrawals s x + (if r = Inr () then withdrawals_made ix x else 0)"
proof -
  from process_instruction_cases [OF assms]
  consider "r = Inr ()" "dispatch e s ix = Inr s'" | err where "r = Inl err" "s' = s"
    by blast
  then show ?thesis
  proof cases
    case 1
    show ?thesis
    proof (cases "x = user_interactions_counter (accounts_of ix)")
      case True
      then show ?thesis
        using 1 Withdraw_totalWithdrawals [of e s _ _ s'] Deposit_withdrawals_kept [of e s _ _ s']
        by (cases ix) auto
    next
      case False
      with dispatch_frame [OF 1(2), of x] show ?thesis
        by (cases ix) (auto simp: totalWithdrawals_def)
    qed
  next
    case 2
    then show ?thesis by simp
  qed
qed

lemma first_deposit:
  assumes "dispatch e s (Deposit a amount) = Inr s'"
      and "user_interactions s (user_interactions_counter a) = None"
  shows "user_interactions s' (user_interactions_counter a)
           = Some \<lparr>total_deposits = 1, total_withdrawals = 0\<rparr>"
  using assms(1)
proof (rule Deposit_success)
  fix s1 c s2 n
  assume init: "init_if_needed e s (signer a) (user_interactions_counter a) = Inr (s1, c)"
     and n: "add_assign_1 e (total_deposits c) = Some n"
     and s': "s' = s2\<lparr>user_interactions := (user_interactions s2)
              (user_interactions_counter a \<mapsto> c\<lparr>total_deposits := n\<rparr>)\<rparr>"
  from init_if_needed_data [OF init] assms(2)
  have "c = \<lparr>total_deposits = 0, total_withdrawals = 0\<rparr>"
    by simp
  with add_assign_1_Some [OF n] show ?thesis
    by (simp add: s')
qed

lemma step_deposits_unat:
  assumes "process_instruction e s ix = (r, s')"
      and "overflow_checks e \<or> unat (totalDeposits s x) + 1 < 2 ^ 64"
  shows "unat (totalDeposits s x) \<le> unat (totalDeposits s' x) \<and>
         unat (totalDeposits s' x) \<le> unat (totalDeposits s x) + 1"
proof (cases "r = Inr () \<and> deposits_made ix x = 1")
  case True
  then obtain a amount where ix: "ix = Deposit a amount" "user_interactions_counter a = x"
    by (cases ix) (auto split: if_splits)
  from True process_instruction_cases [OF assms(1)] ix
  have run: "dispatch e s (Deposit a amount) = Inr s'"
    by auto
  from step_deposits [OF assms(1), of x] True
  have eq: "totalDeposits s' x = totalDeposits s x + 1"
    by simp
  have "unat (totalDeposits s x + 1) = unat (totalDeposits s x) + 1"
  proof (cases "overflow_checks e")
    case True
    with Deposit_counter [OF run] ix(2) eq show ?thesis
      by (auto simp: totalDeposits_def)
  next
    case False
    with assms(2) show ?thesis
      by (simp add: u64_succ u64_no_wrap)
  qed
  with eq show ?thesis by simp
next
  case False
  then have "deposits_made ix x = 0 \<or> r \<noteq> Inr ()"
    by (cases ix) (auto split: if_splits)
  with step_deposits [OF assms(1), of x] show ?thesis
    by auto
qed

lemma step_withdrawals_unat:
  assumes "process_instruction e s ix = (r, s')"
      and "overflow_checks e \<or> unat (totalWithdrawals s x) + 1 < 2 ^ 64"
  shows "unat (totalWithdrawals s x) \<le> unat (totalWithdrawals s' x) \<and>
         unat (totalWithdrawals s' x) \<le> unat (totalWithdrawals s x) + 1"
proof (cases "r = Inr () \<and> withdrawals_made ix x = 1")
  case True
  then obtain a amount where ix: "ix = Withdraw a amount" "user_interactions_counter a = x"
    by (cases ix) (auto split: if_splits)
  from True process_instruction_cases [OF assms(1)] ix
  have run: "dispatch e s (Withdraw a amount) = Inr s'"
    by auto
  from step_withdrawals [OF assms(1), of x] True
  have eq: "totalWithdrawals s' x = totalWithdrawals s x + 1"
    by simp
  have "unat (totalWithdrawals s x + 1) = unat (totalWithdrawals s x) + 1"
  proof (cases "overflow_checks e")
    case True
    with Withdraw_counter [OF run] ix(2) show ?thesis
      by (auto simp: totalWithdrawals_def)
  next
    case False
    with assms(2) show ?thesis
      by (simp add: u64_succ u64_no_wrap)
  qed
  with eq show ?thesis by simp
next
  case False
  then have "withdrawals_made ix x = 0 \<or> r \<noteq> Inr ()"
    by (cases ix) (auto split: if_splits)
  with step_withdrawals [OF assms(1), of x] show ?thesis
    by auto
qed

lemma run_deposits_unat:
  "overflow_checks e \<or> unat (totalDeposits s x) + length ixs < 2 ^ 64 \<Longrightarrow>
   unat (totalDeposits s x) \<le> unat (totalDeposits (process_all e s ixs) x) \<and>
   unat (totalDeposits (process_all e s ixs) x) \<le> unat (totalDeposits s x) + length ixs"
proof (induction ixs arbitrary: s)
  case Nil
  then show ?case by simp
next
  case (Cons ix ixs)
  obtain r s' where step: "process_instruction e s ix = (r, s')"
    by (cases "process_instruction e s ix")
  from Cons.prems have "overflow_checks e \<or> unat (totalDeposits s x) + 1 < 2 ^ 64"
    by auto
  from step_deposits_unat [OF step this]
  have one: "unat (totalDeposits s x) \<le> unat (totalDeposits s' x)"
            "unat (totalDeposits s' x) \<le> unat (totalDeposits s x) + 1"
    by simp_all
  with Cons.prems have "overflow_checks e \<or> unat (totalDeposits s' x) + length ixs < 2 ^ 64"
    by auto
  from Cons.IH [OF this] one step show ?case
    by simp
qed

lemma run_withdrawals_unat:
  "overflow_checks e \<or> unat (totalWithdrawals s x) + length ixs < 2 ^ 64 \<Longrightarrow>
   unat (totalWithdrawals s x) \<le> unat (totalWithdrawals (process_all e s ixs) x) \<and>
   unat (totalWithdrawals (process_all e s ixs) x) \<le> unat (totalWithdrawals s x) + length ixs"
proof (induction ixs arbitrary: s)
  case Nil
  then show ?case by simp
next
  case (Cons ix ixs)
  obtain r s' where step: "process_instruction e s ix = (r, s')"
    by (cases "process_instruction e s ix")
  from Cons.prems have "overflow_checks e \<or> unat (totalWithdrawals s x) + 1 < 2 ^ 64"
    by auto
  from step_withdrawals_unat [OF step this]
  have one: "unat (totalWithdrawals s x) \<le> unat (totalWithdrawals s' x)"
            "unat (totalWithdrawals s' x) \<le> unat (totalWithdrawals s x) + 1"
    by simp_all
  with Cons.prems have "overflow_checks e \<or> unat (totalWithdrawals s' x) + length ixs < 2 ^ 64"
    by auto
  from Cons.IH [OF this] one step show ?case
    by simp
qed

subsection \<open>Calls on accounts that are not the derived ones\<close>

lemma not_derived_rejected:
  assumes "ix = Deposit a amount \<or> ix = Withdraw a amount"
      and "\<not> derived_accounts e a"
  shows "\<exists>err. process_instruction e s ix = (Inl err, s)"
proof (cases "dispatch e s ix")
  case (Inl err)
  then show ?thesis by (simp add: process_instruction_def)
next
  case (Inr s')
  with assms(1) have "derived_accounts e a"
    using Deposit_derived Withdraw_derived by blast
  with assms(2) show ?thesis by simp
qed

lemma mismatch_error:
  assumes "ix = Deposit a amount \<or> ix = Withdraw a amount"
      and "is_signer a" and "system_program a = SYSTEM_PROGRAM_ID"
      and "user_interactions s (user_interactions_counter a) \<noteq> None"
      and "getVaultPDA e (signer a) = Some v" and "getCounterPDA e (signer a) = Some c"
      and "user_vault_account a \<noteq> v \<or> user_interactions_counter a \<noteq> c"
  shows "dispatch e s ix = Inl AddressMismatch"
proof -
  from assms(5,6) obtain vb cb where
    "find_program_address e [vault_tag, toBuffer (signer a)] programID = Some (v, vb)"
    "find_program_address e [counter_tag, toBuffer (signer a)] programID = Some (c, cb)"
    by (auto simp: getVaultPDA_def getCounterPDA_def)
  with assms(1-4,7) show ?thesis
    by (auto simp: dispatch_def Deposit_try_accounts_def Withdraw_try_accounts_def
                   init_if_needed_def)
qed

lemma Withdraw_without_counter:
  assumes "\<forall>c. getCounterPDA e (signer a) = Some c \<longrightarrow> user_interactions s c = None"
  shows "\<exists>err. dispatch e s (Withdraw a amount) = Inl err \<and>
           (user_interactions s (user_interactions_counter a) = None \<longrightarrow> err = CounterNotFound) \<and>
           (user_interactions s (user_interactions_counter a) \<noteq> None \<longrightarrow>
              err \<noteq> CounterNotFound \<and>
              (\<not> is_signer a \<longrightarrow> err = UnauthorizedSigner) \<and>
              (is_signer a \<and> system_program a \<noteq> SYSTEM_PROGRAM_ID \<longrightarrow> err = InvalidProgramId) \<and>
              (is_signer a \<and> system_program a = SYSTEM_PROGRAM_ID \<and>
               getVaultPDA e (signer a) \<noteq> None \<and> getCounterPDA e (signer a) \<noteq> None
                 \<longrightarrow> err = AddressMismatch))"
proof (cases "user_interactions s (user_interactions_counter a)")
  case None
  then show ?thesis
    by (simp add: Withdraw_no_counter)
next
  case (Some c0)
  with assms have other: "getCounterPDA e (signer a) \<noteq> Some (user_interactions_counter a)"
    by auto
  with Some show ?thesis
    by (auto simp: dispatch_def Withdraw_try_accounts_def getVaultPDA_def getCounterPDA_def
             split: option.splits)
qed

lemma Withdraw_authority:
  assumes "dispatch e s (Withdraw a amount) = Inr s'"
  shows "\<exists>bump. find_program_address e [vault_tag, toBuffer (signer a)] programID
                  = Some (user_vault_account a, bump) \<and>
                create_program_address e [vault_tag, toBuffer (signer a), [bump]] programID
                  = Some (user_vault_account a)"
  using assms by (rule Withdraw_success) blast

subsection \<open>The toy instance, evaluated\<close>

lemma find_bump_numeral:
  "find_bump e seeds pid (numeral k) =
     (case create_program_address e (seeds @ [[numeral k]]) pid of
        Some address \<Rightarrow> Some (address, numeral k)
      | None \<Rightarrow> find_bump e seeds pid (pred_numeral k))"
proof -
  have "of_nat (Suc (pred_numeral k)) = (numeral k :: u8)"
    by (metis numeral_eq_Suc of_nat_numeral)
  moreover have "find_bump e seeds pid (numeral k) = find_bump e seeds pid (Suc (pred_numeral k))"
    by (simp only: numeral_eq_Suc)
  ultimately show ?thesis
    unfolding find_bump.simps by (simp only:)
qed

lemma toBuffer_255:
  "toBuffer 255 = [0,0,0,0,0,0,0,0, 0,0,0,0,0,0,0,0, 0,0,0,0,0,0,0,0, 0,0,0,0,0,0,0,255]"
  by (simp add: toBuffer_def upt_rec drop_bit_eq_div)

lemma toBuffer_254:
  "toBuffer 254 = [0,0,0,0,0,0,0,0, 0,0,0,0,0,0,0,0, 0,0,0,0,0,0,0,0, 0,0,0,0,0,0,0,254]"
  by (simp add: toBuffer_def upt_rec drop_bit_eq_div)

lemma toy_vault_255:
  "find_program_address toy_env [vault_tag, toBuffer 255] programID = Some (131069, 253)"
  by (simp add: find_program_address_def find_bump_numeral create_program_address_def
        toy_env_def vault_tag_def toBuffer_255)

lemma toy_counter_255:
  "find_program_address toy_env [counter_tag, toBuffer 255] programID = Some (196605, 253)"
  by (simp add: find_program_address_def find_bump_numeral create_program_address_def
        toy_env_def counter_tag_def toBuffer_255)

lemma toy_vault_254:
  "find_program_address toy_env [vault_tag, toBuffer 254] programID = Some (130813, 253)"
  by (simp add: find_program_address_def find_bump_numeral create_program_address_def
        toy_env_def vault_tag_def toBuffer_254)

lemma toy_counter_254:
  "find_program_address toy_env [counter_tag, toBuffer 254] programID = Some (196349, 253)"
  by (simp add: find_program_address_def find_bump_numeral create_program_address_def
        toy_env_def counter_tag_def toBuffer_254)

lemma toy_rent: "minimum_balance toy_env 24 = 1057920"
  by (simp add: toy_env_def)

lemma toy_checks: "overflow_checks toy_env"
  by (simp add: toy_env_def)

lemma toy_signer_seeds_255:
  "create_program_address toy_env [vault_tag, toBuffer 255, [253]] programID = Some 131069"
  using find_program_address_create [OF toy_vault_255] by simp

lemmas toy_run =
  process_instruction_def dispatch_def Deposit_try_accounts_def Withdraw_try_accounts_def
  SYSTEM_PROGRAM_ID_def init_if_needed_def transfer_def deposit_def withdraw_def
  invoke_signed_transfer_def add_assign_1_def exit_accounts_def Let_def
  totalDeposits_def totalWithdrawals_def
  alice_def genesis_def toy_vault_255 toy_counter_255 toy_signer_seeds_255 toy_rent toy_checks

lemma alice_derived: "derived_accounts toy_env alice"
  by (simp add: derived_accounts_def getVaultPDA_def getCounterPDA_def alice_def
        toy_vault_255 toy_counter_255)

lemma scenario_A_run:
  "process_instruction toy_env genesis (Deposit alice 1000000000) = (Inr (), scenario_A)"
  by (simp add: scenario_A_def toy_run)

lemma partial_deposit:
  "\<exists>s1 ctx. Deposit_try_accounts toy_env genesis alice = Inr (s1, ctx) \<and>
            user_interactions s1 196605 = Some \<lparr>total_deposits = 0, total_withdrawals = 0\<rparr> \<and>
            lamports s1 255 = 4998942080 \<and>
            deposit toy_env s1 ctx 6000000000 = Inl InsufficientFunds"
  by (simp add: toy_run)

lemma scenario_A_eq:
  "scenario_A =
     \<lparr>lamports = (\<lambda>k. if k = 255 then 3998942080 else if k = 254 then 2000000000
                        else if k = 131069 then 1000000000
                        else if k = 196605 then 1057920 else 0),
      user_interactions = [196605 \<mapsto> \<lparr>total_deposits = 1, total_withdrawals = 0\<rparr>]\<rparr>"
  by (simp add: scenario_A_def toy_run fun_eq_iff)

lemma toy_signer_seeds_254:
  "create_program_address toy_env [vault_tag, toBuffer 254, [253]] programID = Some 130813"
  using find_program_address_create [OF toy_vault_254] by simp

lemmas toy_run2 = toy_run bob_def mallory_def toy_vault_254 toy_counter_254 toy_signer_seeds_254

lemma bob_derived: "derived_accounts toy_env bob"
  by (simp add: derived_accounts_def getVaultPDA_def getCounterPDA_def bob_def
        toy_vault_254 toy_counter_254)

lemma mallory_not_derived: "\<not> derived_accounts toy_env mallory"
  by (simp add: derived_accounts_def getVaultPDA_def getCounterPDA_def mallory_def alice_def
        toy_vault_255 toy_counter_255)


lemma scenario_C_run:
  "process_instruction toy_env scenario_A (Withdraw alice 1000000000) = (Inr (), scenario_C)"
  by (simp add: scenario_C_def scenario_A_eq toy_run)



lemma alice_fields:
  "user_vault_account alice = 131069" "user_interactions_counter alice = 196605"
  "signer alice = 255"
  by (simp_all add: alice_def)

lemma create_program_address_wrapping:
  "create_program_address (e\<lparr>overflow_checks := b\<rparr>) seeds pid
     = create_program_address e seeds pid"
  by (simp add: create_program_address_def)

lemma find_bump_wrapping:
  "find_bump (e\<lparr>overflow_checks := b\<rparr>) seeds pid n = find_bump e seeds pid n"
  by (induction n) (simp_all add: create_program_address_wrapping cong: option.case_cong)

lemma wrapping_vault_255:
  "find_program_address wrapping_env [vault_tag, toBuffer 255] programID = Some (131069, 253)"
  using toy_vault_255 by (simp add: wrapping_env_def find_program_address_def find_bump_wrapping)

lemma wrapping_counter_255:
  "find_program_address wrapping_env [counter_tag, toBuffer 255] programID = Some (196605, 253)"
  using toy_counter_255 by (simp add: wrapping_env_def find_program_address_def find_bump_wrapping)

lemma wrapping_checks: "\<not> overflow_checks wrapping_env"
  by (simp add: wrapping_env_def)

lemma saturated_run:
  "fst (process_instruction wrapping_env saturated (Deposit alice 1)) = Inr () \<and>
   totalDeposits (snd (process_instruction wrapping_env saturated (Deposit alice 1))) 196605 = 0"
  by (simp add: process_instruction_def dispatch_def Deposit_try_accounts_def
        SYSTEM_PROGRAM_ID_def init_if_needed_def transfer_def deposit_def
        add_assign_1_def exit_accounts_def Let_def totalDeposits_def
        alice_def saturated_def scenario_A_eq wrapping_vault_255 wrapping_counter_255
        wrapping_checks)

lemma toy_pdas:
  "getVaultPDA toy_env 255 = Some 131069" "getCounterPDA toy_env 255 = Some 196605"
  "getVaultPDA toy_env 254 = Some 130813" "getCounterPDA toy_env 254 = Some 196349"
  by (simp_all add: getVaultPDA_def getCounterPDA_def toy_vault_255 toy_counter_255
        toy_vault_254 toy_counter_254)


lemma wrapping_signer_seeds_255:
  "create_program_address wrapping_env [vault_tag, toBuffer 255, [253]] programID = Some 131069"
  using find_program_address_create [OF wrapping_vault_255] by simp

lemma saturated_deposit_balance:
  "lamports (snd (process_instruction wrapping_env saturated (Deposit alice 1))) 131069
     = 1000000001"
  by (simp add: process_instruction_def dispatch_def Deposit_try_accounts_def
        SYSTEM_PROGRAM_ID_def init_if_needed_def transfer_def deposit_def
        add_assign_1_def exit_accounts_def Let_def totalDeposits_def
        alice_def saturated_def scenario_A_eq wrapping_vault_255 wrapping_counter_255
        wrapping_checks)

lemma saturated_w_checked:
  "process_instruction toy_env saturated_w (Withdraw alice 1000000000)
     = (Inl ProgramPanicked, saturated_w)"
  by (simp add: saturated_w_def scenario_A_eq toy_run)

lemma saturated_w_wrapping:
  "fst (process_instruction wrapping_env saturated_w (Withdraw alice 1000000000)) = Inr () \<and>
   totalWithdrawals (snd (process_instruction wrapping_env saturated_w
      (Withdraw alice 1000000000))) 196605 = 0 \<and>
   lamports (snd (process_instruction wrapping_env saturated_w
      (Withdraw alice 1000000000))) 131069 = 0 \<and>
   lamports (snd (process_instruction wrapping_env saturated_w
      (Withdraw alice 1000000000))) 255 = 4998942080"
  by (simp add: process_instruction_def dispatch_def Withdraw_try_accounts_def
        SYSTEM_PROGRAM_ID_def transfer_def withdraw_def invoke_signed_transfer_def
        add_assign_1_def exit_accounts_def Let_def totalWithdrawals_def
        alice_def saturated_w_def scenario_A_eq wrapping_vault_255 wrapping_counter_255
        wrapping_signer_seeds_255 wrapping_checks)

lemma trudy_run:
  "process_instruction toy_env scenario_A (Withdraw trudy 1) = (Inl AddressMismatch, scenario_A)"
  by (simp add: trudy_def scenario_A_eq toy_run2)


lemma wrong_program_run:
  "process_instruction toy_env scenario_A (Withdraw (alice\<lparr>system_program := 1\<rparr>) 1500000000)
     = (Inl InvalidProgramId, scenario_A)"
  by (simp add: scenario_A_eq toy_run)

section \<open>The claims\<close>

text \<open>
  C1, as the code has it. When \<open>Deposit\<close> succeeds, the accounts are the ones derived
  from the signer, the balance of the vault account has grown by exactly the amount
  (the vault account being a different account from the signer's and from the counter),
  and \<open>totalDeposits\<close> has grown by 1 in \<open>u64\<close> arithmetic, the \<open>+= 1\<close> of the
  source: by exactly 1 when the build checks overflow or the counter was below its
  maximum. When it fails, the ledger is the one before the call, so funds moved without
  the counter, or the counter without the funds, is never seen.
  (In the instance that follows, a deposit of more than the signer holds fails after
  the account validation has created the counter and taken the rent; neither is seen
  afterwards.)
\<close>

theorem deposit_all_or_nothing:
  assumes "process_instruction e s (Deposit a amount) = (r, s')"
  shows "(r = Inr () \<longrightarrow> signer a \<noteq> user_vault_account a \<longrightarrow>
            user_interactions_counter a \<noteq> user_vault_account a \<longrightarrow>
            uint (lamports s' (user_vault_account a))
              = uint (lamports s (user_vault_account a)) + uint amount) \<and>
         (r = Inr () \<longrightarrow>
            derived_accounts e a \<and>
            totalDeposits s' (user_interactions_counter a)
              = totalDeposits s (user_interactions_counter a) + 1 \<and>
            (overflow_checks e \<or> totalDeposits s (user_interactions_counter a) + 1 \<noteq> 0 \<longrightarrow>
               unat (totalDeposits s' (user_interactions_counter a))
                 = unat (totalDeposits s (user_interactions_counter a)) + 1)) \<and>
         (r \<noteq> Inr () \<longrightarrow> s' = s)"
proof -
  from process_instruction_cases [OF assms]
  consider "r = Inr ()" "dispatch e s (Deposit a amount) = Inr s'"
    | err where "r = Inl err" "s' = s"
    by blast
  then show ?thesis
  proof cases
    case 1
    from Deposit_counter [OF 1(2)] obtain c where
      "user_interactions s' (user_interactions_counter a) = Some c"
      "total_deposits c = totalDeposits s (user_interactions_counter a) + 1"
      "overflow_checks e \<longrightarrow>
         unat (total_deposits c) = unat (totalDeposits s (user_interactions_counter a)) + 1"
      by blast
    then have eq: "totalDeposits s' (user_interactions_counter a)
                     = totalDeposits s (user_interactions_counter a) + 1"
      and checked: "overflow_checks e \<longrightarrow>
             unat (totalDeposits s' (user_interactions_counter a))
               = unat (totalDeposits s (user_interactions_counter a)) + 1"
      by (simp_all add: totalDeposits_def)
    have "overflow_checks e \<or> totalDeposits s (user_interactions_counter a) + 1 \<noteq> 0 \<longrightarrow>
            unat (totalDeposits s' (user_interactions_counter a))
              = unat (totalDeposits s (user_interactions_counter a)) + 1"
      using checked u64_succ [of "totalDeposits s (user_interactions_counter a)"]
      by (auto simp: eq)
    with 1 eq Deposit_derived [OF 1(2)] Deposit_vault_balance [OF 1(2)] show ?thesis
      by simp
  next
    case 2
    then show ?thesis by simp
  qed
qed

theorem deposit_all_or_nothing_witness:
  "process_instruction toy_env genesis (Deposit alice 1000000000) = (Inr (), scenario_A) \<and>
   signer alice \<noteq> user_vault_account alice \<and>
   user_interactions_counter alice \<noteq> user_vault_account alice \<and>
   overflow_checks toy_env \<and>
   uint (lamports scenario_A 131069) = uint (lamports genesis 131069) + 1000000000 \<and>
   totalDeposits scenario_A 196605 = totalDeposits genesis 196605 + 1 \<and>
   unat (totalDeposits scenario_A 196605) = 1 \<and>
   (\<exists>s1 ctx. Deposit_try_accounts toy_env genesis alice = Inr (s1, ctx) \<and>
             user_interactions s1 196605 = Some \<lparr>total_deposits = 0, total_withdrawals = 0\<rparr> \<and>
             lamports s1 255 = 4998942080 \<and>
             deposit toy_env s1 ctx 6000000000 = Inl InsufficientFunds) \<and>
   process_instruction toy_env genesis (Deposit alice 6000000000)
     = (Inl InsufficientFunds, genesis) \<and>
   snd (process_instruction toy_env genesis (Deposit alice 6000000000)) = genesis \<and>
   user_interactions genesis 196605 = None \<and> lamports genesis 255 = 5000000000"
proof -
  have fails: "process_instruction toy_env genesis (Deposit alice 6000000000)
                 = (Inl InsufficientFunds, genesis)"
    by (simp add: toy_run)
  have "snd (process_instruction toy_env genesis (Deposit alice 6000000000)) = genesis"
    using deposit_all_or_nothing [OF prod.collapse [symmetric],
            of toy_env genesis alice 6000000000] fails
    by simp
  moreover have
    "uint (lamports scenario_A 131069) = uint (lamports genesis 131069) + 1000000000"
    "totalDeposits scenario_A 196605 = totalDeposits genesis 196605 + 1"
    "unat (totalDeposits scenario_A 196605) = unat (totalDeposits genesis 196605) + 1"
    using deposit_all_or_nothing [OF scenario_A_run] toy_checks by (auto simp: alice_def)
  moreover have "totalDeposits genesis 196605 = 0"
    "user_interactions genesis 196605 = None" "lamports genesis 255 = 5000000000"
    by (simp_all add: totalDeposits_def genesis_def)
  moreover have "signer alice \<noteq> user_vault_account alice"
    "user_interactions_counter alice \<noteq> user_vault_account alice"
    by (simp_all add: alice_def)
  ultimately show ?thesis
    using scenario_A_run fails partial_deposit toy_checks by simp
qed

text \<open>
  C1 as stated fails in a build without overflow checks for a counter at the largest
  \<open>u64\<close>: the \<open>Deposit\<close> succeeds, the vault account receives the lamport, and
  \<open>totalDeposits\<close> drops from 18446744073709551615 to 0 instead of growing by 1.
\<close>

theorem deposit_all_or_nothing_counterexample:
  "\<not> overflow_checks wrapping_env \<and>
   fst (process_instruction wrapping_env saturated (Deposit alice 1)) = Inr () \<and>
   lamports saturated 131069 = 1000000000 \<and>
   lamports (snd (process_instruction wrapping_env saturated (Deposit alice 1))) 131069
     = 1000000001 \<and>
   unat (totalDeposits saturated 196605) = 18446744073709551615 \<and>
   unat (totalDeposits (snd (process_instruction wrapping_env saturated (Deposit alice 1)))
      196605) = 0"
proof -
  have "lamports saturated 131069 = 1000000000"
    "unat (totalDeposits saturated 196605) = 18446744073709551615"
    by (simp_all add: totalDeposits_def saturated_def scenario_A_eq)
  with saturated_run saturated_deposit_balance wrapping_checks show ?thesis
    by simp
qed

text \<open>
  C2, as the code has it. When \<open>Withdraw\<close> succeeds, the accounts are the ones derived
  from the signer, the counter existed, the amount did not exceed the balance of the
  vault account, that balance has dropped by exactly the amount, the signer's balance
  has grown by it (the vault account being a different account from the signer's), and
  \<open>totalWithdrawals\<close> has grown by 1 in \<open>u64\<close> arithmetic, the \<open>+= 1\<close> of the
  source: by exactly 1 when the build checks overflow or the counter was below its
  maximum.
\<close>

theorem withdraw_effect:
  assumes "process_instruction e s (Withdraw a amount) = (Inr (), s')"
      and "signer a \<noteq> user_vault_account a"
  shows "derived_accounts e a \<and>
         user_interactions s (user_interactions_counter a) \<noteq> None \<and>
         amount \<le> lamports s (user_vault_account a) \<and>
         uint (lamports s' (user_vault_account a))
           = uint (lamports s (user_vault_account a)) - uint amount \<and>
         uint (lamports s' (signer a)) = uint (lamports s (signer a)) + uint amount \<and>
         totalWithdrawals s' (user_interactions_counter a)
           = totalWithdrawals s (user_interactions_counter a) + 1 \<and>
         (overflow_checks e \<or> totalWithdrawals s (user_interactions_counter a) + 1 \<noteq> 0 \<longrightarrow>
            unat (totalWithdrawals s' (user_interactions_counter a))
              = unat (totalWithdrawals s (user_interactions_counter a)) + 1)"
proof -
  from process_instruction_cases [OF assms(1)]
  have run: "dispatch e s (Withdraw a amount) = Inr s'"
    by auto
  from Withdraw_counter [OF run] obtain c where
    c: "user_interactions s (user_interactions_counter a) = Some c"
       "user_interactions s' (user_interactions_counter a)
          = Some (c\<lparr>total_withdrawals := total_withdrawals c + 1\<rparr>)"
       "overflow_checks e \<longrightarrow> unat (total_withdrawals c + 1) = unat (total_withdrawals c) + 1"
    by blast
  then have eq: "totalWithdrawals s' (user_interactions_counter a)
                   = totalWithdrawals s (user_interactions_counter a) + 1"
    by (simp add: totalWithdrawals_def)
  have "overflow_checks e \<or> totalWithdrawals s (user_interactions_counter a) + 1 \<noteq> 0 \<longrightarrow>
          unat (totalWithdrawals s' (user_interactions_counter a))
            = unat (totalWithdrawals s (user_interactions_counter a)) + 1"
    using c u64_succ [of "total_withdrawals c"]
    by (auto simp: totalWithdrawals_def)
  with c(1) eq Withdraw_derived [OF run] Withdraw_balances [OF run assms(2)] show ?thesis
    by simp
qed

theorem withdraw_effect_witness:
  "process_instruction toy_env scenario_A (Withdraw alice 1000000000)
     = (Inr (), snd (process_instruction toy_env scenario_A (Withdraw alice 1000000000))) \<and>
   signer alice \<noteq> user_vault_account alice \<and>
   uint (lamports (snd (process_instruction toy_env scenario_A (Withdraw alice 1000000000)))
      131069) = 1000000000 - 1000000000 \<and>
   uint (lamports (snd (process_instruction toy_env scenario_A (Withdraw alice 1000000000)))
      255) = 3998942080 + 1000000000 \<and>
   totalWithdrawals (snd (process_instruction toy_env scenario_A (Withdraw alice 1000000000)))
      196605 = 0 + 1"
proof -
  have run: "process_instruction toy_env scenario_A (Withdraw alice 1000000000)
     = (Inr (), snd (process_instruction toy_env scenario_A (Withdraw alice 1000000000)))"
    by (simp add: scenario_A_eq toy_run)
  have apart: "signer alice \<noteq> user_vault_account alice"
    by (simp add: alice_def)
  show ?thesis
    using withdraw_effect [OF run apart] run apart
    by (simp add: alice_def scenario_A_eq totalWithdrawals_def)
qed

text \<open>
  C2 as stated fails in a build without overflow checks for a counter at the largest
  \<open>u64\<close>: the \<open>Withdraw\<close> succeeds, the vault account is emptied, and
  \<open>totalWithdrawals\<close> drops from 18446744073709551615 to 0 instead of growing by 1.
\<close>

theorem withdraw_effect_counterexample:
  "\<not> overflow_checks wrapping_env \<and>
   fst (process_instruction wrapping_env saturated_w (Withdraw alice 1000000000)) = Inr () \<and>
   lamports saturated_w 131069 = 1000000000 \<and>
   lamports (snd (process_instruction wrapping_env saturated_w (Withdraw alice 1000000000)))
      131069 = 0 \<and>
   unat (totalWithdrawals saturated_w 196605) = 18446744073709551615 \<and>
   unat (totalWithdrawals (snd (process_instruction wrapping_env saturated_w
      (Withdraw alice 1000000000))) 196605) = 0"
proof -
  have "lamports saturated_w 131069 = 1000000000"
    "unat (totalWithdrawals saturated_w 196605) = 18446744073709551615"
    by (simp_all add: totalWithdrawals_def saturated_w_def scenario_A_eq)
  with saturated_w_wrapping wrapping_checks show ?thesis
    by simp
qed

text \<open>
  C3, as the code has it. For a call that is signed, names the System Program and
  passes the vault and counter accounts derived from the signer, the counter account
  existing: a \<open>Withdraw\<close> of more than the balance of the vault account fails with
  \<open>InsufficientFunds\<close> and leaves the ledger as it was; a \<open>Withdraw\<close> of exactly
  the balance succeeds, leaves the vault account at zero, the counter account in place
  with \<open>totalWithdrawals\<close> one higher, and every counter account that existed
  still existing, provided the vault account is not the signer's own account, the
  signer's balance can take the credit in 64 bits and the counter is not at its maximum
  in a build with overflow checks.
\<close>

theorem withdraw_bounds:
  assumes "is_signer a" and "system_program a = SYSTEM_PROGRAM_ID"
      and "derived_accounts e a"
      and "user_interactions s (user_interactions_counter a) = Some c"
  shows "(lamports s (user_vault_account a) < amount \<longrightarrow>
            process_instruction e s (Withdraw a amount) = (Inl InsufficientFunds, s)) \<and>
         (amount = lamports s (user_vault_account a) \<and>
          signer a \<noteq> user_vault_account a \<and>
          unat (lamports s (signer a)) + unat amount < 2 ^ 64 \<and>
          \<not> (overflow_checks e \<and> total_withdrawals c + 1 = 0) \<longrightarrow>
            (\<exists>s'. process_instruction e s (Withdraw a amount) = (Inr (), s') \<and>
                  lamports s' (user_vault_account a) = 0 \<and>
                  user_interactions s' (user_interactions_counter a)
                    = Some (c\<lparr>total_withdrawals := total_withdrawals c + 1\<rparr>) \<and>
                  (\<forall>x. user_interactions s x \<noteq> None \<longrightarrow> user_interactions s' x \<noteq> None)))"
proof (intro conjI impI)
  assume "lamports s (user_vault_account a) < amount"
  from Withdraw_insufficient [OF assms this]
  show "process_instruction e s (Withdraw a amount) = (Inl InsufficientFunds, s)"
    by (simp add: process_instruction_def)
next
  assume "amount = lamports s (user_vault_account a) \<and>
          signer a \<noteq> user_vault_account a \<and>
          unat (lamports s (signer a)) + unat amount < 2 ^ 64 \<and>
          \<not> (overflow_checks e \<and> total_withdrawals c + 1 = 0)"
  then obtain s' where s':
    "dispatch e s (Withdraw a amount) = Inr s'"
    "lamports s' (user_vault_account a) = 0"
    "user_interactions s' (user_interactions_counter a)
       = Some (c\<lparr>total_withdrawals := total_withdrawals c + 1\<rparr>)"
    using Withdraw_all [OF assms] by blast
  have "\<forall>x. user_interactions s x \<noteq> None \<longrightarrow> user_interactions s' x \<noteq> None"
    using accounts_persist [OF s'(1)] by blast
  with s' show "\<exists>s'. process_instruction e s (Withdraw a amount) = (Inr (), s') \<and>
                  lamports s' (user_vault_account a) = 0 \<and>
                  user_interactions s' (user_interactions_counter a)
                    = Some (c\<lparr>total_withdrawals := total_withdrawals c + 1\<rparr>) \<and>
                  (\<forall>x. user_interactions s x \<noteq> None \<longrightarrow> user_interactions s' x \<noteq> None)"
    by (simp add: process_instruction_def)
qed

theorem withdraw_bounds_witness:
  "is_signer alice \<and> system_program alice = SYSTEM_PROGRAM_ID \<and> derived_accounts toy_env alice \<and>
   user_interactions scenario_A (user_interactions_counter alice)
     = Some \<lparr>total_deposits = 1, total_withdrawals = 0\<rparr> \<and>
   lamports scenario_A (user_vault_account alice) < 1500000000 \<and>
   process_instruction toy_env scenario_A (Withdraw alice 1500000000)
     = (Inl InsufficientFunds, scenario_A) \<and>
   lamports scenario_A (user_vault_account alice) = 1000000000 \<and>
   signer alice \<noteq> user_vault_account alice \<and>
   unat (lamports scenario_A (signer alice)) + unat (1000000000 :: u64) < 2 ^ 64 \<and>
   total_withdrawals \<lparr>total_deposits = 1, total_withdrawals = 0\<rparr> + 1 \<noteq> 0 \<and>
   process_instruction toy_env scenario_A (Withdraw alice 1000000000) = (Inr (), scenario_C) \<and>
   lamports scenario_C (user_vault_account alice) = 0 \<and>
   user_interactions scenario_C (user_interactions_counter alice)
     = Some \<lparr>total_deposits = 1, total_withdrawals = 1\<rparr>"
proof -
  have pre: "is_signer alice" "system_program alice = SYSTEM_PROGRAM_ID"
    by (simp_all add: alice_def SYSTEM_PROGRAM_ID_def)
  have counter: "user_interactions scenario_A (user_interactions_counter alice)
                   = Some \<lparr>total_deposits = 1, total_withdrawals = 0\<rparr>"
    by (simp add: scenario_A_eq alice_def)
  have balance: "lamports scenario_A (user_vault_account alice) = 1000000000"
    by (simp add: scenario_A_eq alice_def)
  have side: "signer alice \<noteq> user_vault_account alice"
    "unat (lamports scenario_A (signer alice)) + unat (1000000000 :: u64) < 2 ^ 64"
    by (simp_all add: scenario_A_eq alice_def)
  show ?thesis
    using withdraw_bounds [OF pre alice_derived counter, of 1500000000]
          withdraw_bounds [OF pre alice_derived counter, of 1000000000]
          pre alice_derived counter balance side scenario_C_run
    by auto
qed

text \<open>
  C3 as stated fails in both halves. In a build with overflow checks, with
  \<open>total_withdrawals\<close> at the largest \<open>u64\<close>, the withdrawal of exactly the full
  balance by the owner, on the derived accounts, fails: the checked increment panics
  and nothing changes. And a \<open>Withdraw\<close> of more than the balance that names another
  program as the System Program is rejected with \<open>InvalidProgramId\<close>, not with
  \<open>InsufficientFunds\<close>.
\<close>

theorem withdraw_bounds_counterexample:
  "overflow_checks toy_env \<and>
   is_signer alice \<and> system_program alice = SYSTEM_PROGRAM_ID \<and> derived_accounts toy_env alice \<and>
   user_interactions saturated_w (user_interactions_counter alice)
     = Some \<lparr>total_deposits = 1, total_withdrawals = 18446744073709551615\<rparr> \<and>
   lamports saturated_w (user_vault_account alice) = 1000000000 \<and>
   process_instruction toy_env saturated_w (Withdraw alice 1000000000)
     = (Inl ProgramPanicked, saturated_w) \<and>
   lamports scenario_A (user_vault_account alice) < 1500000000 \<and>
   process_instruction toy_env scenario_A (Withdraw (alice\<lparr>system_program := 1\<rparr>) 1500000000)
     = (Inl InvalidProgramId, scenario_A)"
proof -
  have "user_interactions saturated_w (user_interactions_counter alice)
          = Some \<lparr>total_deposits = 1, total_withdrawals = 18446744073709551615\<rparr>"
    "lamports saturated_w (user_vault_account alice) = 1000000000"
    "lamports scenario_A (user_vault_account alice) < 1500000000"
    "is_signer alice" "system_program alice = SYSTEM_PROGRAM_ID"
    by (simp_all add: saturated_w_def scenario_A_eq alice_def SYSTEM_PROGRAM_ID_def)
  with saturated_w_checked wrong_program_run alice_derived toy_checks show ?thesis
    by simp
qed

text \<open>
  C4, as the code has it. While the counter account derived from the signer does not
  exist, every \<open>Withdraw\<close> of that signer fails, whatever the amount and the accounts
  passed, signed or not, and the ledger is the one before the call: nothing is created,
  nothing changes. The error is \<open>CounterNotFound\<close> when the counter account passed
  does not exist, in particular when it is the one derived from the signer. When the
  call passes some other account as its counter and that account exists, the error is
  that of the first later check that fails: \<open>UnauthorizedSigner\<close> for an unsigned
  call, \<open>InvalidProgramId\<close> when the System Program is not named, and otherwise
  (the bump searches finding an address) \<open>AddressMismatch\<close>.
\<close>

theorem withdraw_before_deposit:
  assumes "\<forall>c. getCounterPDA e (signer a) = Some c \<longrightarrow> user_interactions s c = None"
  shows "\<exists>err. process_instruction e s (Withdraw a amount) = (Inl err, s) \<and>
           (user_interactions s (user_interactions_counter a) = None \<longrightarrow> err = CounterNotFound) \<and>
           (getCounterPDA e (signer a) = Some (user_interactions_counter a)
              \<longrightarrow> err = CounterNotFound) \<and>
           (user_interactions s (user_interactions_counter a) \<noteq> None \<longrightarrow>
              err \<noteq> CounterNotFound \<and>
              (\<not> is_signer a \<longrightarrow> err = UnauthorizedSigner) \<and>
              (is_signer a \<and> system_program a \<noteq> SYSTEM_PROGRAM_ID \<longrightarrow> err = InvalidProgramId) \<and>
              (is_signer a \<and> system_program a = SYSTEM_PROGRAM_ID \<and>
               getVaultPDA e (signer a) \<noteq> None \<and> getCounterPDA e (signer a) \<noteq> None
                 \<longrightarrow> err = AddressMismatch))"
proof -
  from Withdraw_without_counter [OF assms, of amount]
  show ?thesis
  proof (elim exE conjE)
    fix err
    assume err: "dispatch e s (Withdraw a amount) = Inl err"
      and absent: "user_interactions s (user_interactions_counter a) = None
                     \<longrightarrow> err = CounterNotFound"
      and present: "user_interactions s (user_interactions_counter a) \<noteq> None \<longrightarrow>
              err \<noteq> CounterNotFound \<and>
              (\<not> is_signer a \<longrightarrow> err = UnauthorizedSigner) \<and>
              (is_signer a \<and> system_program a \<noteq> SYSTEM_PROGRAM_ID \<longrightarrow> err = InvalidProgramId) \<and>
              (is_signer a \<and> system_program a = SYSTEM_PROGRAM_ID \<and>
               getVaultPDA e (signer a) \<noteq> None \<and> getCounterPDA e (signer a) \<noteq> None
                 \<longrightarrow> err = AddressMismatch)"
    have own: "getCounterPDA e (signer a) = Some (user_interactions_counter a)
                 \<longrightarrow> err = CounterNotFound"
      using assms absent by auto
    have "process_instruction e s (Withdraw a amount) = (Inl err, s)"
      using err by (simp add: process_instruction_def)
    with absent own present show ?thesis
      by (intro exI [of _ err] conjI)
  qed
qed

theorem withdraw_before_deposit_witness:
  "getCounterPDA toy_env (signer alice) = Some (user_interactions_counter alice) \<and>
   user_interactions genesis (user_interactions_counter alice) = None \<and>
   process_instruction toy_env genesis (Withdraw alice 1000000000)
     = (Inl CounterNotFound, genesis) \<and>
   getCounterPDA toy_env (signer trudy) = Some 196349 \<and>
   user_interactions scenario_A 196349 = None \<and>
   user_interactions scenario_A (user_interactions_counter trudy) \<noteq> None \<and>
   is_signer trudy \<and> system_program trudy = SYSTEM_PROGRAM_ID \<and>
   process_instruction toy_env scenario_A (Withdraw trudy 1) = (Inl AddressMismatch, scenario_A)"
proof -
  have derived: "getCounterPDA toy_env (signer alice) = Some (user_interactions_counter alice)"
    using alice_derived by (simp add: derived_accounts_def)
  have absent: "user_interactions genesis (user_interactions_counter alice) = None"
    by (simp add: genesis_def)
  have none: "\<forall>c. getCounterPDA toy_env (signer alice) = Some c \<longrightarrow> user_interactions genesis c = None"
    by (simp add: genesis_def)
  have second: "getCounterPDA toy_env (signer trudy) = Some 196349"
    "user_interactions scenario_A 196349 = None"
    by (simp_all add: trudy_def bob_def toy_pdas scenario_A_eq)
  then have second_none: "\<forall>c. getCounterPDA toy_env (signer trudy) = Some c
                    \<longrightarrow> user_interactions scenario_A c = None"
    by simp
  have pre: "user_interactions scenario_A (user_interactions_counter trudy) \<noteq> None"
    "is_signer trudy" "system_program trudy = SYSTEM_PROGRAM_ID"
    "getVaultPDA toy_env (signer trudy) \<noteq> None" "getCounterPDA toy_env (signer trudy) \<noteq> None"
    by (simp_all add: trudy_def bob_def toy_pdas scenario_A_eq SYSTEM_PROGRAM_ID_def)
  show ?thesis
    using withdraw_before_deposit [OF none, of 1000000000]
          withdraw_before_deposit [OF second_none, of 1]
          derived absent second pre
    by auto
qed

text \<open>
  C4 as stated fails in the error it names: the second owner has no counter, and a
  \<open>Withdraw\<close> of that owner that passes the first owner's counter account is
  rejected with \<open>AddressMismatch\<close>, not with \<open>CounterNotFound\<close>.
\<close>

theorem withdraw_before_deposit_counterexample:
  "getCounterPDA toy_env (signer trudy) = Some 196349 \<and>
   user_interactions scenario_A 196349 = None \<and>
   process_instruction toy_env scenario_A (Withdraw trudy 1) = (Inl AddressMismatch, scenario_A) \<and>
   fst (process_instruction toy_env scenario_A (Withdraw trudy 1)) \<noteq> Inl CounterNotFound"
  using trudy_run by (simp add: trudy_def bob_def toy_pdas scenario_A_eq)

text \<open>
  C5, as the code has it. A \<open>Deposit\<close> or \<open>Withdraw\<close> whose vault or counter account
  is not the one derived from the signer is always rejected, and the ledger is the one
  before the call. The error is \<open>AddressMismatch\<close> when the checks that run before
  the comparison pass: the call is signed, names the System Program, and the counter
  account passed exists. A \<open>Withdraw\<close> succeeds only when the vault account debited
  is the address found for the signer, and the signer seeds with the found bump derive
  exactly that address.
\<close>

theorem address_mismatch_rejected:
  assumes "ix = Deposit a amount \<or> ix = Withdraw a amount"
  shows "(\<not> derived_accounts e a \<longrightarrow> (\<exists>err. process_instruction e s ix = (Inl err, s))) \<and>
         (is_signer a \<and> system_program a = SYSTEM_PROGRAM_ID \<and>
          user_interactions s (user_interactions_counter a) \<noteq> None \<and>
          getVaultPDA e (signer a) = Some v \<and> getCounterPDA e (signer a) = Some c \<and>
          (user_vault_account a \<noteq> v \<or> user_interactions_counter a \<noteq> c) \<longrightarrow>
            process_instruction e s ix = (Inl AddressMismatch, s)) \<and>
         (process_instruction e s (Withdraw a amount) = (Inr (), s') \<longrightarrow>
            (\<exists>bump. find_program_address e [vault_tag, toBuffer (signer a)] programID
                      = Some (user_vault_account a, bump) \<and>
                    create_program_address e [vault_tag, toBuffer (signer a), [bump]] programID
                      = Some (user_vault_account a)))"
proof (intro conjI impI)
  assume "\<not> derived_accounts e a"
  with assms show "\<exists>err. process_instruction e s ix = (Inl err, s)"
    by (rule not_derived_rejected)
next
  assume "is_signer a \<and> system_program a = SYSTEM_PROGRAM_ID \<and>
          user_interactions s (user_interactions_counter a) \<noteq> None \<and>
          getVaultPDA e (signer a) = Some v \<and> getCounterPDA e (signer a) = Some c \<and>
          (user_vault_account a \<noteq> v \<or> user_interactions_counter a \<noteq> c)"
  with assms have "dispatch e s ix = Inl AddressMismatch"
    using mismatch_error by blast
  then show "process_instruction e s ix = (Inl AddressMismatch, s)"
    by (simp add: process_instruction_def)
next
  assume "process_instruction e s (Withdraw a amount) = (Inr (), s')"
  with process_instruction_cases [OF this] have "dispatch e s (Withdraw a amount) = Inr s'"
    by auto
  then show "\<exists>bump. find_program_address e [vault_tag, toBuffer (signer a)] programID
                      = Some (user_vault_account a, bump) \<and>
                    create_program_address e [vault_tag, toBuffer (signer a), [bump]] programID
                      = Some (user_vault_account a)"
    by (rule Withdraw_authority)
qed

theorem address_mismatch_rejected_witness:
  "\<not> derived_accounts toy_env mallory \<and>
   is_signer mallory \<and> system_program mallory = SYSTEM_PROGRAM_ID \<and>
   user_interactions scenario_A (user_interactions_counter mallory) \<noteq> None \<and>
   getVaultPDA toy_env (signer mallory) = Some 131069 \<and>
   getCounterPDA toy_env (signer mallory) = Some 196605 \<and>
   user_vault_account mallory \<noteq> 131069 \<and>
   process_instruction toy_env scenario_A (Withdraw mallory 1) = (Inl AddressMismatch, scenario_A) \<and>
   process_instruction toy_env scenario_A (Deposit mallory 1) = (Inl AddressMismatch, scenario_A) \<and>
   process_instruction toy_env scenario_A (Withdraw alice 1000000000) = (Inr (), scenario_C) \<and>
   (\<exists>bump. find_program_address toy_env [vault_tag, toBuffer (signer alice)] programID
             = Some (user_vault_account alice, bump) \<and>
           create_program_address toy_env [vault_tag, toBuffer (signer alice), [bump]] programID
             = Some (user_vault_account alice))"
proof -
  have pre: "is_signer mallory" "system_program mallory = SYSTEM_PROGRAM_ID"
    "user_interactions scenario_A (user_interactions_counter mallory) \<noteq> None"
    "user_vault_account mallory \<noteq> 131069"
    by (simp_all add: mallory_def alice_def SYSTEM_PROGRAM_ID_def scenario_A_eq)
  have pdas: "getVaultPDA toy_env (signer mallory) = Some 131069"
    "getCounterPDA toy_env (signer mallory) = Some 196605"
    using alice_derived by (simp_all add: derived_accounts_def alice_def mallory_def)
  show ?thesis
    using address_mismatch_rejected [of "Withdraw mallory 1" mallory 1 toy_env scenario_A
            131069 196605 scenario_A]
          address_mismatch_rejected [of "Deposit mallory 1" mallory 1 toy_env scenario_A
            131069 196605 scenario_A]
          address_mismatch_rejected [of "Withdraw alice 1000000000" alice 1000000000 toy_env
            scenario_A 131069 196605 scenario_C]
          mallory_not_derived pre pdas scenario_C_run
    by simp
qed

text \<open>
  C5 as stated fails in the error it names: a \<open>Withdraw\<close> with a vault account that is
  not the derived one, by an owner without a counter, is rejected with
  \<open>CounterNotFound\<close>, as C4 requires, not with \<open>AddressMismatch\<close>.
\<close>

theorem address_mismatch_rejected_counterexample:
  "getVaultPDA toy_env (signer mallory) = Some 131069 \<and>
   user_vault_account mallory \<noteq> 131069 \<and>
   process_instruction toy_env genesis (Withdraw mallory 1) = (Inl CounterNotFound, genesis) \<and>
   fst (process_instruction toy_env genesis (Withdraw mallory 1)) \<noteq> Inl AddressMismatch"
proof -
  have "getVaultPDA toy_env (signer mallory) = Some 131069"
    using alice_derived by (simp add: derived_accounts_def alice_def mallory_def)
  moreover have "process_instruction toy_env genesis (Withdraw mallory 1)
                   = (Inl CounterNotFound, genesis)"
    by (simp add: toy_run2)
  ultimately show ?thesis
    by (simp add: mallory_def alice_def)
qed

text \<open>
  C6. Address derivation is a function of the tag, the owner's key and the program
  identifier alone (and of the hash and the curve, which are fixed primitives): it takes
  no ledger and no other state. Its result is exactly the pair the search criterion of
  section 4.1 describes, and that criterion is met by at most one address and one bump;
  so any two computations of \<open>getVaultPDA\<close>, or of \<open>getCounterPDA\<close>, for the same owner
  yield the identical address and the identical bump.
\<close>

theorem derivation_deterministic:
  "(find_program_address e [tag, toBuffer owner] programID = Some (address, bump)
      \<longleftrightarrow> first_valid_bump e [tag, toBuffer owner] programID address bump) \<and>
   (first_valid_bump e [tag, toBuffer owner] programID a1 b1 \<and>
    first_valid_bump e [tag, toBuffer owner] programID a2 b2 \<longrightarrow> a1 = a2 \<and> b1 = b2) \<and>
   (getVaultPDA e owner = Some address
      \<longleftrightarrow> (\<exists>b. first_valid_bump e [vault_tag, toBuffer owner] programID address b)) \<and>
   (getCounterPDA e owner = Some address
      \<longleftrightarrow> (\<exists>b. first_valid_bump e [counter_tag, toBuffer owner] programID address b))"
proof (intro conjI)
  show "find_program_address e [tag, toBuffer owner] programID = Some (address, bump)
          \<longleftrightarrow> first_valid_bump e [tag, toBuffer owner] programID address bump"
    by (rule find_program_address_iff)
  show "first_valid_bump e [tag, toBuffer owner] programID a1 b1 \<and>
        first_valid_bump e [tag, toBuffer owner] programID a2 b2 \<longrightarrow> a1 = a2 \<and> b1 = b2"
    using first_valid_bump_unique by blast
  show "getVaultPDA e owner = Some address
          \<longleftrightarrow> (\<exists>b. first_valid_bump e [vault_tag, toBuffer owner] programID address b)"
    by (auto simp: getVaultPDA_def find_program_address_iff [symmetric])
  show "getCounterPDA e owner = Some address
          \<longleftrightarrow> (\<exists>b. first_valid_bump e [counter_tag, toBuffer owner] programID address b)"
    by (auto simp: getCounterPDA_def find_program_address_iff [symmetric])
qed

theorem derivation_deterministic_witness:
  "find_program_address toy_env [vault_tag, toBuffer 255] programID = Some (131069, 253) \<and>
   first_valid_bump toy_env [vault_tag, toBuffer 255] programID 131069 253 \<and>
   find_program_address toy_env [counter_tag, toBuffer 255] programID = Some (196605, 253) \<and>
   first_valid_bump toy_env [counter_tag, toBuffer 255] programID 196605 253 \<and>
   getVaultPDA toy_env 255 = Some 131069 \<and> getCounterPDA toy_env 255 = Some 196605"
proof -
  have "first_valid_bump toy_env [vault_tag, toBuffer 255] programID 131069 253"
    using derivation_deterministic [of toy_env vault_tag 255 131069 253] toy_vault_255
    by simp
  moreover have "first_valid_bump toy_env [counter_tag, toBuffer 255] programID 196605 253"
    using derivation_deterministic [of toy_env counter_tag 255 196605 253] toy_counter_255
    by simp
  ultimately show ?thesis
    using derivation_deterministic [of toy_env vault_tag 255 131069 253 131069 253 131069 253]
          derivation_deterministic [of toy_env counter_tag 255 196605 253 196605 253 196605 253]
          toy_vault_255 toy_counter_255
    by (auto simp: getVaultPDA_def getCounterPDA_def)
qed



text \<open>
  C9, as the code has it. \<open>total_deposits\<close> and \<open>total_withdrawals\<close> are \<open>u64\<close>. A
  first successful \<open>Deposit\<close> creates the counter from zero: afterwards it reads
  (1, 0). Every successful \<open>Deposit\<close> adds exactly 1 to \<open>totalDeposits\<close> of its
  counter, every successful \<open>Withdraw\<close> adds exactly 1 to \<open>totalWithdrawals\<close>, in
  \<open>u64\<close> arithmetic and whatever the amount; failed calls and calls on other counters
  add nothing. Both counters never decrease along a sequence of calls in a build with
  overflow checks, and in any build along every sequence too short to take a counter
  past its maximum.
\<close>

theorem counters_count_calls:
  assumes "process_instruction e s ix = (r, s')"
  shows "(r = Inr () \<longrightarrow> ix = Deposit a amount \<longrightarrow>
          user_interactions s (user_interactions_counter a) = None \<longrightarrow>
            user_interactions s' (user_interactions_counter a)
              = Some \<lparr>total_deposits = 1, total_withdrawals = 0\<rparr>) \<and>
         totalDeposits s' x
           = totalDeposits s x + (if r = Inr () then deposits_made ix x else 0) \<and>
         totalWithdrawals s' x
           = totalWithdrawals s x + (if r = Inr () then withdrawals_made ix x else 0) \<and>
         (overflow_checks e \<or>
          (unat (totalDeposits s x) + length ixs < 2 ^ 64 \<and>
           unat (totalWithdrawals s x) + length ixs < 2 ^ 64) \<longrightarrow>
            totalDeposits s x \<le> totalDeposits (process_all e s ixs) x \<and>
            totalWithdrawals s x \<le> totalWithdrawals (process_all e s ixs) x)"
proof (intro conjI impI)
  assume "r = Inr ()" and "ix = Deposit a amount"
     and "user_interactions s (user_interactions_counter a) = None"
  with process_instruction_cases [OF assms]
  show "user_interactions s' (user_interactions_counter a)
          = Some \<lparr>total_deposits = 1, total_withdrawals = 0\<rparr>"
    using first_deposit by auto
next
  show "totalDeposits s' x
          = totalDeposits s x + (if r = Inr () then deposits_made ix x else 0)"
    using assms by (rule step_deposits)
next
  show "totalWithdrawals s' x
          = totalWithdrawals s x + (if r = Inr () then withdrawals_made ix x else 0)"
    using assms by (rule step_withdrawals)
next
  assume "overflow_checks e \<or>
          (unat (totalDeposits s x) + length ixs < 2 ^ 64 \<and>
           unat (totalWithdrawals s x) + length ixs < 2 ^ 64)"
  then have "overflow_checks e \<or> unat (totalDeposits s x) + length ixs < 2 ^ 64"
    by blast
  from run_deposits_unat [OF this]
  show "totalDeposits s x \<le> totalDeposits (process_all e s ixs) x"
    by (simp add: word_le_nat_alt)
next
  assume "overflow_checks e \<or>
          (unat (totalDeposits s x) + length ixs < 2 ^ 64 \<and>
           unat (totalWithdrawals s x) + length ixs < 2 ^ 64)"
  then have "overflow_checks e \<or> unat (totalWithdrawals s x) + length ixs < 2 ^ 64"
    by blast
  from run_withdrawals_unat [OF this]
  show "totalWithdrawals s x \<le> totalWithdrawals (process_all e s ixs) x"
    by (simp add: word_le_nat_alt)
qed

theorem counters_count_calls_witness:
  "process_instruction toy_env genesis (Deposit alice 1000000000) = (Inr (), scenario_A) \<and>
   user_interactions genesis (user_interactions_counter alice) = None \<and>
   user_interactions scenario_A (user_interactions_counter alice)
     = Some \<lparr>total_deposits = 1, total_withdrawals = 0\<rparr> \<and>
   totalDeposits scenario_A 196605 = totalDeposits genesis 196605 + 1 \<and>
   totalWithdrawals scenario_A 196605 = totalWithdrawals genesis 196605 \<and>
   overflow_checks toy_env \<and>
   totalDeposits genesis 196605
     \<le> totalDeposits (process_all toy_env genesis
          [Deposit alice 1000000000, Withdraw alice 1000000000]) 196605 \<and>
   totalWithdrawals genesis 196605
     \<le> totalWithdrawals (process_all toy_env genesis
          [Deposit alice 1000000000, Withdraw alice 1000000000]) 196605 \<and>
   unat (totalDeposits genesis 196605)
     + length [Deposit alice 1000000000, Withdraw alice 1000000000] < 2 ^ 64 \<and>
   totalDeposits genesis 196605
     \<le> totalDeposits (process_all wrapping_env genesis
          [Deposit alice 1000000000, Withdraw alice 1000000000]) 196605"
proof -
  have absent: "user_interactions genesis (user_interactions_counter alice) = None"
    by (simp add: genesis_def)
  have zero: "totalDeposits genesis 196605 = 0" "totalWithdrawals genesis 196605 = 0"
    by (simp_all add: totalDeposits_def totalWithdrawals_def genesis_def)
  show ?thesis
    using counters_count_calls [OF scenario_A_run, of alice 1000000000 196605
            "[Deposit alice 1000000000, Withdraw alice 1000000000]"]
          counters_count_calls [OF prod.collapse [symmetric], of wrapping_env genesis
            "Deposit alice 1000000000" alice 1000000000 196605
            "[Deposit alice 1000000000, Withdraw alice 1000000000]"]
          scenario_A_run absent zero toy_checks
    by (simp add: alice_fields)
qed

text \<open>
  C9 as stated fails in a build without overflow checks once a counter holds the largest
  \<open>u64\<close>: the next successful \<open>Deposit\<close> wraps \<open>totalDeposits\<close> to 0.
\<close>

theorem counters_count_calls_counterexample:
  "\<not> overflow_checks wrapping_env \<and>
   totalDeposits saturated 196605 = 18446744073709551615 \<and>
   fst (process_instruction wrapping_env saturated (Deposit alice 1)) = Inr () \<and>
   totalDeposits (snd (process_instruction wrapping_env saturated (Deposit alice 1))) 196605 = 0 \<and>
   \<not> totalDeposits saturated 196605
       \<le> totalDeposits (snd (process_instruction wrapping_env saturated (Deposit alice 1))) 196605"
proof -
  have "totalDeposits saturated 196605 = 18446744073709551615"
    by (simp add: totalDeposits_def saturated_def)
  with saturated_run wrapping_checks show ?thesis
    by simp
qed



end
